theory Spec2Isabelle
  imports Complex_Main
begin

section \<open>Data model of server.js\<close>

text \<open>
  The server keeps two global maps, \<open>parties\<close> (party code to party object) and
  \<open>playerToParty\<close> (socket id to party code), and reacts to socket events and to
  timers. Socket ids and party codes are JavaScript strings; a string is falsy exactly
  when it is empty, and the handlers test them for truthiness, so the model keeps them as
  strings and writes the tests out.
\<close>

type_synonym conn_id = string
type_synonym party_code = string

text \<open>
  A player name is a JavaScript string that a client chose freely: the list of its
  UTF-16 code units, each a natural number.
\<close>

type_synonym js_string = "nat list"

text \<open>
  Values that arrive in an event payload. Payloads are JSON, so a number is a finite
  double; every finite double is a rational, and the only arithmetic done on these
  numbers is one division and one comparison with 0.5 (see \<open>computedPoints\<close>).
\<close>

datatype js_value = JUndefined | JNull | JBool bool | JNum rat | JStr string

fun truthy :: "js_value \<Rightarrow> bool" where
  "truthy JUndefined = False"
| "truthy JNull = False"
| "truthy (JBool b) = b"
| "truthy (JNum n) = (n \<noteq> 0)"
| "truthy (JStr s) = (s \<noteq> [])"

text \<open>Player objects (lines 70-76 and 123-129). The field \<open>id\<close> is called \<open>pid\<close> here.\<close>

record player =
  pid :: conn_id
  name :: js_string
  score :: int
  isHost :: bool
  socketId :: conn_id

datatype game_status = Active | Finished

text \<open>
  The game state object of lines 216-225. \<open>attempted\<close> is a JavaScript Set of socket
  ids: a list without repetitions in insertion order. \<open>buzzedPlayerId\<close> is null or a
  socket id.
\<close>

record gameState =
  status :: game_status
  buzzedPlayerId :: "conn_id option"
  buzzPoint :: rat
  attempted :: "conn_id list"
  lastIncorrectPlayerId :: "conn_id option"
  startTime :: nat
  buzzLocked :: bool

text \<open>A question is opaque to the server except for its text, the field \<open>question\<close>.\<close>

record quiz_question =
  question :: string

text \<open>
  The party object (lines 78-86; \<open>pendingAdvanceTimeout\<close> is added by line 226 and is
  undefined, hence falsy, before). \<open>party.host\<close> is a reference to one of the player
  objects of \<open>party.players\<close>; the handlers read only its \<open>id\<close>, which never changes,
  and write its \<open>isHost\<close> flag right after pointing it at \<open>players[0]\<close>, so the model
  keeps the id and writes the flag into the roster. \<open>oid\<close> is the identity of the
  JavaScript object: the time-up callback of lines 383-388 keeps a reference to the party
  object itself, not to its code.
\<close>

record party =
  code :: party_code
  host :: conn_id
  players :: "player list"
  settings :: "(string \<times> js_value) list option"
  gameState :: "gameState option"
  questions :: "quiz_question list"
  currentQuestionIndex :: int
  pendingAdvanceTimeout :: "nat option"
  oid :: nat

text \<open>
  A pending \<open>setTimeout\<close>: its handle, its delay in milliseconds and what it runs.
  \<open>AdvanceCb c\<close> is the closure \<open>() => advanceToNextQuestion(partyCode)\<close> of lines 359
  and 385, \<open>TimeUpCb c o\<close> the outer closure of line 383 for the party object \<open>o\<close>.
\<close>

datatype callback = AdvanceCb party_code | TimeUpCb party_code nat

record timer =
  handle :: nat
  delay :: nat
  callback :: callback

record server =
  parties :: "party_code \<rightharpoonup> party"
  playerToParty :: "conn_id \<rightharpoonup> party_code"
  timers :: "timer list"
  nextHandle :: nat
  nextOid :: nat

definition init_server :: server where
  "init_server = \<lparr>parties = Map.empty, playerToParty = Map.empty, timers = [],
     nextHandle = 0, nextOid = 0\<rparr>"

text \<open>The error strings of the callbacks, one constructor for each.\<close>

datatype error =
    InvalidName            \<comment> \<open>Invalid player name\<close>
  | InvalidInput           \<comment> \<open>Invalid party code or player name\<close>
  | PartyNotFound          \<comment> \<open>Party not found\<close>
  | PartyFull              \<comment> \<open>Party is full (max 8 players)\<close>
  | NameTaken              \<comment> \<open>Player name already taken in this party\<close>
  | NotInParty             \<comment> \<open>Not in a party\<close>
  | NotHostStart           \<comment> \<open>Only host can start game\<close>
  | InvalidQuestions       \<comment> \<open>Invalid questions\<close>
  | GameNotActive          \<comment> \<open>Game not active\<close>
  | AlreadyBuzzed          \<comment> \<open>Someone already buzzed\<close>
  | BuzzLocked             \<comment> \<open>Buzzing is temporarily locked\<close>
  | AlreadyAttempted       \<comment> \<open>You have already attempted this question\<close>
  | NotYourBuzz            \<comment> \<open>You did not buzz in\<close>
  | PlayerNotFound         \<comment> \<open>Player not found\<close>
  | NotHostAdvance         \<comment> \<open>Only host can advance\<close>

text \<open>What a handler passes to its callback.\<close>

datatype reply =
    Failure error
  | Success
  | Created party_code conn_id
  | Joined conn_id party
  | Advanced bool

text \<open>
  What \<open>io.to(room).emit\<close> sends, with the fields of the payload that the server
  computes. The new host of \<open>player_disconnected\<close> is given by its id.
\<close>

datatype message =
    party_updated party_code "player list"
  | game_started party_code "quiz_question list" "(string \<times> js_value) list"
  | player_buzzed conn_id js_string js_value
  | reading_progress js_value
  | answer_typing js_string js_value
  | answer_submitted conn_id js_string js_value int int "player list"
  | buzz_unlocked js_string conn_id "conn_id list"
  | time_up
  | next_question int
  | game_finished "player list"
  | player_disconnected conn_id "player list" conn_id

type_synonym emit = "party_code \<times> message"

text \<open>
  A callback that throws ends the process (an uncaught exception in a timer); a
  \<open>do ... while\<close> that finds no free code among the random draws it is given does not
  return.
\<close>

datatype fault = TypeError | NoFreeCode

section \<open>String helpers\<close>

text \<open>
  \<open>String.prototype.trim\<close> and \<open>String.prototype.toLowerCase\<close> are built-ins of the
  JavaScript engine, not code of this server, and their tables (the Unicode white space
  and case mappings) are none of its source. The handlers that call them take them as a
  parameter, and every theorem holds whatever the two functions are.
\<close>

record string_ops =
  trim :: "js_string \<Rightarrow> js_string"
  toLowerCase :: "js_string \<Rightarrow> js_string"

text \<open>A string literal of the source, of ASCII characters, as code units.\<close>

definition utf16 :: "string \<Rightarrow> js_string" where
  "utf16 cs = map of_char cs"

text \<open>\<open>Number.prototype.toString\<close> on a natural number: its decimal digits.\<close>

definition digitChar :: "nat \<Rightarrow> char" where
  "digitChar d = char_of (48 + d)"

fun toString :: "nat \<Rightarrow> string" where
  "toString n = (if n < 10 then [digitChar n] else toString (n div 10) @ [digitChar (n mod 10)])"

declare toString.simps [simp del]

section \<open>Utilities (lines 33-52)\<close>

text \<open>
  \<open>generatePartyCode\<close> draws until the code is not in the registry. The draws, the
  values of \<open>Math.floor(1000 + Math.random() * 9000)\<close>, are given by the environment;
  the loop that exhausts them has not returned.
\<close>

fun generatePartyCode :: "(party_code \<rightharpoonup> party) \<Rightarrow> nat list \<Rightarrow> party_code option" where
  "generatePartyCode ps [] = None"
| "generatePartyCode ps (n # ns) =
     (let c = toString n in if ps c \<noteq> None then generatePartyCode ps ns else Some c)"

definition getParty :: "server \<Rightarrow> party_code \<Rightarrow> party option" where
  "getParty s partyCode = parties s partyCode"

definition getPlayer :: "server \<Rightarrow> party_code \<Rightarrow> conn_id \<Rightarrow> player option" where
  "getPlayer s partyCode playerId =
     (case getParty s partyCode of
        None \<Rightarrow> None
      | Some party \<Rightarrow> find (\<lambda>p. pid p = playerId) (players party))"

text \<open>\<open>setTimeout\<close> and \<open>clearTimeout\<close> on the list of pending timers.\<close>

definition setTimeout :: "callback \<Rightarrow> nat \<Rightarrow> server \<Rightarrow> nat \<times> server" where
  "setTimeout cb ms s =
     (nextHandle s,
      s\<lparr>timers := timers s @ [\<lparr>handle = nextHandle s, delay = ms, callback = cb\<rparr>],
        nextHandle := nextHandle s + 1\<rparr>)"

definition clearTimeout :: "nat \<Rightarrow> server \<Rightarrow> server" where
  "clearTimeout h s = s\<lparr>timers := filter (\<lambda>t. handle t \<noteq> h) (timers s)\<rparr>"

section \<open>Party management (lines 63-186)\<close>

definition on_create_party ::
  "string_ops \<Rightarrow> conn_id \<Rightarrow> js_string \<Rightarrow> nat list \<Rightarrow> server \<Rightarrow>
   fault + (reply \<times> emit list \<times> server)" where
  "on_create_party ops sid playerName draws s =
     (if playerName = [] \<or> trim ops playerName = [] then Inr (Failure InvalidName, [], s)
      else case generatePartyCode (parties s) draws of
        None \<Rightarrow> Inl NoFreeCode
      | Some partyCode \<Rightarrow>
          let hostP = \<lparr>pid = sid, name = trim ops playerName, score = 0, isHost = True,
                       socketId = sid\<rparr>;
              newParty = \<lparr>code = partyCode, host = sid, players = [hostP], settings = None,
                          gameState = None, questions = [], currentQuestionIndex = - 1,
                          pendingAdvanceTimeout = None, oid = nextOid s\<rparr>
          in Inr (Created partyCode sid,
                  [(partyCode, party_updated partyCode [hostP])],
                  s\<lparr>parties := (parties s)(partyCode \<mapsto> newParty),
                    playerToParty := (playerToParty s)(sid \<mapsto> partyCode),
                    nextOid := nextOid s + 1\<rparr>))"

definition on_join_party ::
  "string_ops \<Rightarrow> conn_id \<Rightarrow> party_code \<Rightarrow> js_string \<Rightarrow> server \<Rightarrow>
   reply \<times> emit list \<times> server" where
  "on_join_party ops sid partyCode playerName s =
     (if partyCode = [] \<or> playerName = [] \<or> trim ops playerName = []
      then (Failure InvalidInput, [], s)
      else case getParty s partyCode of
        None \<Rightarrow> (Failure PartyNotFound, [], s)
      | Some party \<Rightarrow>
          if length (players party) \<ge> 8 then (Failure PartyFull, [], s)
          else if list_ex
                    (\<lambda>p. toLowerCase ops (name p) = toLowerCase ops (trim ops playerName))
                    (players party)
          then (Failure NameTaken, [], s)
          else
            let newPlayer = \<lparr>pid = sid, name = trim ops playerName, score = 0, isHost = False,
                             socketId = sid\<rparr>;
                party' = party\<lparr>players := players party @ [newPlayer]\<rparr>
            in (Joined sid party',
                [(partyCode, party_updated partyCode (players party'))],
                s\<lparr>parties := (parties s)(partyCode \<mapsto> party'),
                  playerToParty := (playerToParty s)(sid \<mapsto> partyCode)\<rparr>))"

text \<open>
  Lines 175-179 and 476-480, after the roster has been filtered and found non-empty: when
  the host is the one who left, \<open>party.host = party.players[0]\<close> and
  \<open>party.host.isHost = true\<close>.
\<close>

definition assignNewHost :: "conn_id \<Rightarrow> party \<Rightarrow> party" where
  "assignNewHost sid party =
     (if host party = sid
      then (case players party of
              [] \<Rightarrow> party
            | p # ps \<Rightarrow> party\<lparr>host := pid p, players := p\<lparr>isHost := True\<rparr> # ps\<rparr>)
      else party)"

definition on_leave_party :: "conn_id \<Rightarrow> server \<Rightarrow> reply \<times> emit list \<times> server" where
  "on_leave_party sid s =
     (case playerToParty s sid of
        None \<Rightarrow> (Failure NotInParty, [], s)
      | Some partyCode \<Rightarrow>
          if partyCode = [] then (Failure NotInParty, [], s)
          else case getParty s partyCode of
            None \<Rightarrow> (Failure PartyNotFound, [], s)
          | Some party \<Rightarrow>
              let party1 = party\<lparr>players := filter (\<lambda>p. pid p \<noteq> sid) (players party)\<rparr>;
                  idx = (playerToParty s)(sid := None)
              in if players party1 = []
                 then (Success, [],
                       s\<lparr>parties := (parties s)(partyCode := None), playerToParty := idx\<rparr>)
                 else
                   let party2 = assignNewHost sid party1
                   in (Success,
                       [(partyCode, party_updated partyCode (players party2))],
                       s\<lparr>parties := (parties s)(partyCode \<mapsto> party2),
                         playerToParty := idx\<rparr>))"

section \<open>Game management (lines 193-450)\<close>

definition on_start_game ::
  "conn_id \<Rightarrow> quiz_question list option \<Rightarrow> (string \<times> js_value) list option \<Rightarrow> nat \<Rightarrow>
   server \<Rightarrow> reply \<times> emit list \<times> server" where
  "on_start_game sid dataQuestions dataSettings now s =
     (case playerToParty s sid of
        None \<Rightarrow> (Failure NotInParty, [], s)
      | Some partyCode \<Rightarrow>
          if partyCode = [] then (Failure NotInParty, [], s)
          else case getParty s partyCode of
            None \<Rightarrow> (Failure PartyNotFound, [], s)
          | Some party \<Rightarrow>
              if host party \<noteq> sid then (Failure NotHostStart, [], s)
              else case dataQuestions of
                None \<Rightarrow> (Failure InvalidQuestions, [], s)
              | Some qs \<Rightarrow>
                  if length qs = 0 then (Failure InvalidQuestions, [], s)
                  else
                    let st = (case dataSettings of None \<Rightarrow> [] | Some b \<Rightarrow> b);
                        party' = party\<lparr>
                          settings := Some st,
                          questions := qs,
                          currentQuestionIndex := 0,
                          gameState := Some \<lparr>status = Active, buzzedPlayerId = None,
                            buzzPoint = 0, attempted = [], lastIncorrectPlayerId = None,
                            startTime = now, buzzLocked = False\<rparr>,
                          pendingAdvanceTimeout := None,
                          players := map (\<lambda>p. p\<lparr>score := 0\<rparr>) (players party)\<rparr>
                    in (Success,
                        [(partyCode, game_started partyCode qs st)],
                        s\<lparr>parties := (parties s)(partyCode \<mapsto> party')\<rparr>))"

definition on_buzz :: "conn_id \<Rightarrow> js_value \<Rightarrow> server \<Rightarrow> reply \<times> emit list \<times> server" where
  "on_buzz sid dataBuzzPoint s =
     (case playerToParty s sid of
        None \<Rightarrow> (Failure NotInParty, [], s)
      | Some partyCode \<Rightarrow>
          if partyCode = [] then (Failure NotInParty, [], s)
          else case getParty s partyCode of
            None \<Rightarrow> (Failure GameNotActive, [], s)
          | Some party \<Rightarrow>
              (case gameState party of
                 None \<Rightarrow> (Failure GameNotActive, [], s)
               | Some g \<Rightarrow>
                   if (case buzzedPlayerId g of None \<Rightarrow> False | Some b \<Rightarrow> b \<noteq> [])
                   then (Failure AlreadyBuzzed, [], s)
                   else if buzzLocked g then (Failure BuzzLocked, [], s)
                   else if sid \<in> set (attempted g) then (Failure AlreadyAttempted, [], s)
                   else
                     let g' = g\<lparr>buzzedPlayerId := Some sid,
                                buzzPoint := (case dataBuzzPoint of JNum n \<Rightarrow> n | _ \<Rightarrow> 0),
                                lastIncorrectPlayerId := None\<rparr>;
                         playerName = (case getPlayer s partyCode sid of
                                         None \<Rightarrow> utf16 ''Unknown''
                                       | Some p \<Rightarrow>
                                           if name p = [] then utf16 ''Unknown'' else name p)
                     in (Success,
                         [(partyCode, player_buzzed sid playerName dataBuzzPoint)],
                         s\<lparr>parties := (parties s)
                             (partyCode \<mapsto> party\<lparr>gameState := Some g'\<rparr>)\<rparr>)))"

definition on_reading_progress :: "conn_id \<Rightarrow> js_value \<Rightarrow> server \<Rightarrow> emit list \<times> server" where
  "on_reading_progress sid charIndex s =
     (case playerToParty s sid of
        None \<Rightarrow> ([], s)
      | Some partyCode \<Rightarrow>
          if partyCode = [] then ([], s)
          else ([(partyCode, reading_progress charIndex)], s))"

definition on_answer_typing :: "conn_id \<Rightarrow> js_value \<Rightarrow> server \<Rightarrow> emit list \<times> server" where
  "on_answer_typing sid answerText s =
     (case playerToParty s sid of
        None \<Rightarrow> ([], s)
      | Some partyCode \<Rightarrow>
          if partyCode = [] then ([], s)
          else case getPlayer s partyCode sid of
            None \<Rightarrow> ([], s)
          | Some p \<Rightarrow> ([(partyCode, answer_typing (name p) answerText)], s))"

text \<open>
  Lines 331-340. \<open>party.questions[i]\<close> is undefined outside the array; a question
  with an empty text is falsy in \<open>curQ.question\<close>; \<open>buzzPoint || 0\<close> replaces a zero
  by zero.
\<close>

definition questionAt :: "quiz_question list \<Rightarrow> int \<Rightarrow> quiz_question option" where
  "questionAt qs i = (if 0 \<le> i \<and> i < int (length qs) then Some (qs ! nat i) else None)"

definition computedPoints :: "js_value \<Rightarrow> party \<Rightarrow> gameState \<Rightarrow> int" where
  "computedPoints isCorrect party g =
     (if truthy isCorrect then
        (let curQ = questionAt (questions party) (currentQuestionIndex party);
             bp = (if buzzPoint g \<noteq> 0 then buzzPoint g else 0);
             questionLen = (case curQ of
                              None \<Rightarrow> 1
                            | Some q \<Rightarrow> if question q \<noteq> [] then length (question q) else 1)
         in if bp / max 1 (of_nat questionLen) < 1 / 2 then 15 else 10)
      else - 5)"

text \<open>\<open>player.score += n\<close> on the object that \<open>getPlayer\<close> found: the first with that id.\<close>

fun addScore :: "conn_id \<Rightarrow> int \<Rightarrow> player list \<Rightarrow> player list" where
  "addScore i n [] = []"
| "addScore i n (p # ps) =
     (if pid p = i then p\<lparr>score := score p + n\<rparr> # ps else p # addScore i n ps)"

text \<open>\<open>Set.prototype.add\<close>.\<close>

definition setAdd :: "'a \<Rightarrow> 'a list \<Rightarrow> 'a list" where
  "setAdd x xs = (if x \<in> set xs then xs else xs @ [x])"

definition on_submit_answer :: "conn_id \<Rightarrow> js_value \<Rightarrow> server \<Rightarrow> reply \<times> emit list \<times> server" where
  "on_submit_answer sid isCorrect s =
     (case playerToParty s sid of
        None \<Rightarrow> (Failure NotInParty, [], s)
      | Some partyCode \<Rightarrow>
          if partyCode = [] then (Failure NotInParty, [], s)
          else case getParty s partyCode of
            None \<Rightarrow> (Failure GameNotActive, [], s)
          | Some party \<Rightarrow>
              (case gameState party of
                 None \<Rightarrow> (Failure GameNotActive, [], s)
               | Some g \<Rightarrow>
                   if buzzedPlayerId g \<noteq> Some sid then (Failure NotYourBuzz, [], s)
                   else case getPlayer s partyCode sid of
                     None \<Rightarrow> (Failure PlayerNotFound, [], s)
                   | Some pl \<Rightarrow>
                       let pts = computedPoints isCorrect party g;
                           players' = addScore sid pts (players party);
                           e1 = (partyCode, answer_submitted sid (name pl) isCorrect pts
                                   (score pl + pts) players')
                       in if truthy isCorrect then
                            let (h, s1) = setTimeout (AdvanceCb partyCode) 5000 s;
                                party' = party\<lparr>players := players',
                                  gameState := Some (g\<lparr>buzzLocked := True\<rparr>),
                                  pendingAdvanceTimeout := Some h\<rparr>
                            in (Success, [e1],
                                s1\<lparr>parties := (parties s1)(partyCode \<mapsto> party')\<rparr>)
                          else
                            let g' = g\<lparr>buzzedPlayerId := None, buzzPoint := 0,
                                       attempted := setAdd sid (attempted g)\<rparr>;
                                e2 = (partyCode,
                                      buzz_unlocked (name pl) sid (attempted g'));
                                party' = party\<lparr>players := players', gameState := Some g'\<rparr>
                            in if length (attempted g') \<ge> length (players party')
                               then
                                 let (h, s1) = setTimeout (TimeUpCb partyCode (oid party)) 1800 s
                                 in (Success, [e1, e2],
                                     s1\<lparr>parties := (parties s1)
                                         (partyCode \<mapsto> party'\<lparr>pendingAdvanceTimeout := Some h\<rparr>)\<rparr>)
                               else (Success, [e1, e2],
                                     s\<lparr>parties := (parties s)(partyCode \<mapsto> party')\<rparr>)))"

text \<open>
  Lines 394-422. With \<open>party.gameState\<close> null, line 404 throws a TypeError. The
  comparator of line 414 sorts by descending score; \<open>Array.prototype.sort\<close> is stable
  and sorts \<open>party.players\<close> itself.
\<close>

definition advanceToNextQuestion :: "party_code \<Rightarrow> server \<Rightarrow> fault + (emit list \<times> server)" where
  "advanceToNextQuestion partyCode s =
     (case getParty s partyCode of
        None \<Rightarrow> Inr ([], s)
      | Some party \<Rightarrow>
          let s1 = (case pendingAdvanceTimeout party of
                      None \<Rightarrow> s
                    | Some h \<Rightarrow> clearTimeout h s);
              i = currentQuestionIndex party + 1
          in case gameState party of
               None \<Rightarrow> Inl TypeError
             | Some g \<Rightarrow>
                 let g' = g\<lparr>buzzedPlayerId := None, buzzPoint := 0, attempted := [],
                            lastIncorrectPlayerId := None, buzzLocked := False\<rparr>;
                     party' = party\<lparr>pendingAdvanceTimeout := None, currentQuestionIndex := i\<rparr>
                 in if i \<ge> int (length (questions party))
                    then
                      let ranked = sort_key (\<lambda>p. - score p) (players party)
                      in Inr ([(partyCode, game_finished ranked)],
                              s1\<lparr>parties := (parties s1)(partyCode \<mapsto>
                                   party'\<lparr>gameState := Some (g'\<lparr>status := Finished\<rparr>),
                                          players := ranked\<rparr>)\<rparr>)
                    else
                      Inr ([(partyCode, next_question i)],
                           s1\<lparr>parties := (parties s1)(partyCode \<mapsto>
                                party'\<lparr>gameState := Some g'\<rparr>)\<rparr>))"

text \<open>
  Lines 425-450. \<open>hasCallback\<close> says whether the client passed an acknowledgement
  function; without one the handler replies nothing.
\<close>

definition on_next_question ::
  "conn_id \<Rightarrow> bool \<Rightarrow> server \<Rightarrow> fault + (reply option \<times> emit list \<times> server)" where
  "on_next_question sid hasCallback s =
     (let ack = (\<lambda>r. if hasCallback then Some r else None) in
      case playerToParty s sid of
        None \<Rightarrow> Inr (ack (Failure NotInParty), [], s)
      | Some partyCode \<Rightarrow>
          if partyCode = [] then Inr (ack (Failure NotInParty), [], s)
          else case getParty s partyCode of
            None \<Rightarrow> Inr (ack (Failure GameNotActive), [], s)
          | Some party \<Rightarrow>
              if gameState party = None then Inr (ack (Failure GameNotActive), [], s)
              else if host party \<noteq> sid then Inr (ack (Failure NotHostAdvance), [], s)
              else case advanceToNextQuestion partyCode s of
                Inl f \<Rightarrow> Inl f
              | Inr (out, s') \<Rightarrow>
                  let finished = (case getParty s' partyCode of
                                    None \<Rightarrow> False
                                  | Some p' \<Rightarrow> currentQuestionIndex p' \<ge> int (length (questions p')))
                  in Inr (ack (Advanced finished), out, s'))"

section \<open>Disconnection (lines 456-492)\<close>

definition on_disconnect :: "conn_id \<Rightarrow> server \<Rightarrow> emit list \<times> server" where
  "on_disconnect sid s =
     (case playerToParty s sid of
        None \<Rightarrow> ([], s)
      | Some partyCode \<Rightarrow>
          if partyCode = [] then ([], s)
          else case getParty s partyCode of
            None \<Rightarrow> ([], s)
          | Some party \<Rightarrow>
              let party1 = party\<lparr>players := filter (\<lambda>p. pid p \<noteq> sid) (players party)\<rparr>;
                  idx = (playerToParty s)(sid := None)
              in if players party1 = []
                 then ([], s\<lparr>parties := (parties s)(partyCode := None), playerToParty := idx\<rparr>)
                 else
                   let party2 = assignNewHost sid party1
                   in ([(partyCode, player_disconnected sid (players party2) (host party2))],
                       s\<lparr>parties := (parties s)(partyCode \<mapsto> party2),
                         playerToParty := idx\<rparr>))"

section \<open>Timers and the event loop\<close>

text \<open>
  A pending timer fires: it leaves the list of pending timers and its closure runs. The
  closure of lines 383-388 emits \<open>time_up\<close> and arms the second timer; it stores the new
  handle in the party object it was created for, which is the registered party of that
  code only if the object is the same (a party deleted meanwhile is an object that no
  handler can reach any more).
\<close>

definition fire_timer :: "nat \<Rightarrow> server \<Rightarrow> fault + (emit list \<times> server)" where
  "fire_timer h s =
     (case find (\<lambda>t. handle t = h) (timers s) of
        None \<Rightarrow> Inr ([], s)
      | Some t \<Rightarrow>
          let s0 = s\<lparr>timers := filter (\<lambda>t. handle t \<noteq> h) (timers s)\<rparr>
          in case callback t of
               AdvanceCb partyCode \<Rightarrow> advanceToNextQuestion partyCode s0
             | TimeUpCb partyCode ob \<Rightarrow>
                 let (h', s1) = setTimeout (AdvanceCb partyCode) 5000 s0
                 in Inr ([(partyCode, time_up)],
                         case parties s1 partyCode of
                           None \<Rightarrow> s1
                         | Some party \<Rightarrow>
                             if oid party = ob
                             then s1\<lparr>parties := (parties s1)(partyCode \<mapsto>
                                       party\<lparr>pendingAdvanceTimeout := Some h'\<rparr>)\<rparr>
                             else s1))"

text \<open>The events the process reacts to: a socket event with its payload, or a timer.\<close>

datatype event =
    CreateParty conn_id js_string "nat list"
  | JoinParty conn_id party_code js_string
  | LeaveParty conn_id
  | StartGame conn_id "quiz_question list option" "(string \<times> js_value) list option" nat
  | Buzz conn_id js_value
  | ReadingProgress conn_id js_value
  | AnswerTyping conn_id js_value
  | SubmitAnswer conn_id js_value
  | NextQuestion conn_id bool
  | Disconnect conn_id
  | TimerFires nat

fun step :: "string_ops \<Rightarrow> event \<Rightarrow> server \<Rightarrow> fault + (reply option \<times> emit list \<times> server)" where
  "step ops (CreateParty sid nm draws) s =
     (case on_create_party ops sid nm draws s of
        Inl f \<Rightarrow> Inl f
      | Inr (r, out, s') \<Rightarrow> Inr (Some r, out, s'))"
| "step ops (JoinParty sid c nm) s =
     (case on_join_party ops sid c nm s of (r, out, s') \<Rightarrow> Inr (Some r, out, s'))"
| "step ops (LeaveParty sid) s =
     (case on_leave_party sid s of (r, out, s') \<Rightarrow> Inr (Some r, out, s'))"
| "step ops (StartGame sid qs st now) s =
     (case on_start_game sid qs st now s of (r, out, s') \<Rightarrow> Inr (Some r, out, s'))"
| "step ops (Buzz sid v) s =
     (case on_buzz sid v s of (r, out, s') \<Rightarrow> Inr (Some r, out, s'))"
| "step ops (ReadingProgress sid v) s =
     (case on_reading_progress sid v s of (out, s') \<Rightarrow> Inr (None, out, s'))"
| "step ops (AnswerTyping sid v) s =
     (case on_answer_typing sid v s of (out, s') \<Rightarrow> Inr (None, out, s'))"
| "step ops (SubmitAnswer sid v) s =
     (case on_submit_answer sid v s of (r, out, s') \<Rightarrow> Inr (Some r, out, s'))"
| "step ops (NextQuestion sid cb) s = on_next_question sid cb s"
| "step ops (Disconnect sid) s =
     (case on_disconnect sid s of (out, s') \<Rightarrow> Inr (None, out, s'))"
| "step ops (TimerFires h) s =
     (case fire_timer h s of
        Inl f \<Rightarrow> Inl f
      | Inr (out, s') \<Rightarrow> Inr (None, out, s'))"

text \<open>Running a list of events from a state; a fault ends the run.\<close>

fun run :: "string_ops \<Rightarrow> event list \<Rightarrow> server \<Rightarrow> fault + server" where
  "run ops [] s = Inr s"
| "run ops (e # es) s =
     (case step ops e s of Inl f \<Rightarrow> Inl f | Inr (r, out, s') \<Rightarrow> run ops es s')"

text \<open>The states the process can be in, for given string built-ins.\<close>

inductive reachable :: "string_ops \<Rightarrow> server \<Rightarrow> bool" for ops where
  reachable_init: "reachable ops init_server"
| reachable_step:
    "reachable ops s \<Longrightarrow> step ops e s = Inr (r, out, s') \<Longrightarrow> reachable ops s'"

section \<open>Observations and example runs\<close>

text \<open>The game state and the roster of the party registered under a code.\<close>

definition gameOf :: "server \<Rightarrow> party_code \<Rightarrow> gameState option" where
  "gameOf s c = Option.bind (parties s c) gameState"

definition rosterOf :: "server \<Rightarrow> party_code \<Rightarrow> player list" where
  "rosterOf s c = (case parties s c of None \<Rightarrow> [] | Some p \<Rightarrow> players p)"

text \<open>
  The example runs use names of ASCII letters and spaces. On such names the built-ins
  are these: \<open>trim\<close> strips, among others, the code units 9 to 13 and 32 from both
  ends, and \<open>toLowerCase\<close> maps A to Z to a to z.
\<close>

definition asciiWhiteSpace :: "nat \<Rightarrow> bool" where
  "asciiWhiteSpace u = (u \<in> set [9, 10, 11, 12, 13, 32])"

definition asciiTrim :: "js_string \<Rightarrow> js_string" where
  "asciiTrim us = rev (dropWhile asciiWhiteSpace (rev (dropWhile asciiWhiteSpace us)))"

definition asciiLowerCase :: "js_string \<Rightarrow> js_string" where
  "asciiLowerCase us = map (\<lambda>u. if 65 \<le> u \<and> u \<le> 90 then u + 32 else u) us"

definition ascii_ops :: string_ops where
  "ascii_ops = \<lparr>trim = asciiTrim, toLowerCase = asciiLowerCase\<rparr>"

text \<open>The state after a run of events from the start of the process.\<close>

definition after :: "event list \<Rightarrow> server" where
  "after es = (case run ascii_ops es init_server of Inl f \<Rightarrow> init_server | Inr s \<Rightarrow> s)"

definition ex_question :: quiz_question where
  "ex_question = \<lparr>question = ''Which planet is known as the red planet?''\<rparr>"

text \<open>One player creates party 1000 and starts a game of one question.\<close>

definition ex_started :: "event list" where
  "ex_started =
     [CreateParty ''sockA'' (utf16 ''Ann'') [1000],
      StartGame ''sockA'' (Some [ex_question]) None 0]"

text \<open>
  The length of the text of the current question; where there is none (the index is
  outside the array), line 336 takes the length to be 1.
\<close>

definition currentQuestionLength :: "party \<Rightarrow> nat" where
  "currentQuestionLength party =
     (case questionAt (questions party) (currentQuestionIndex party) of
        None \<Rightarrow> 1
      | Some q \<Rightarrow> length (question q))"

definition scoreOf :: "server \<Rightarrow> party_code \<Rightarrow> conn_id \<Rightarrow> int option" where
  "scoreOf s c sid = map_option score (getPlayer s c sid)"

text \<open>The player of \<open>ex_started\<close> buzzes at offset 10 of the 40 characters.\<close>

definition ex_buzzed :: "event list" where
  "ex_buzzed = ex_started @ [Buzz ''sockA'' (JNum 10)]"

text \<open>The host of \<open>ex_started\<close> advances past the only question: the game is finished.\<close>

definition ex_finished :: "event list" where
  "ex_finished = ex_started @ [NextQuestion ''sockA'' True]"

text \<open>
  A correct answer arms the advance timer 0; before it fires the host starts a new game
  of two questions.
\<close>

definition ex_restarted :: "event list" where
  "ex_restarted = ex_buzzed @
     [SubmitAnswer ''sockA'' (JBool True),
      StartGame ''sockA'' (Some [ex_question, ex_question]) None 1]"

text \<open>
  Two players; sockA buzzes and answers wrongly, then sockB buzzes: the state in which
  the last player who has not attempted holds the buzz.
\<close>

definition ex_last_attempt :: "event list" where
  "ex_last_attempt =
     [CreateParty ''sockA'' (utf16 ''Ann'') [1000],
      JoinParty ''sockB'' ''1000'' (utf16 ''Bob''),
      StartGame ''sockA'' (Some [ex_question]) None 0,
      Buzz ''sockA'' (JNum 10),
      SubmitAnswer ''sockA'' (JBool False),
      Buzz ''sockB'' (JNum 30)]"

text \<open>Two players; the host sockA holds the buzz.\<close>

definition ex_host_buzzed :: "event list" where
  "ex_host_buzzed =
     [CreateParty ''sockA'' (utf16 ''Ann'') [1000],
      JoinParty ''sockB'' ''1000'' (utf16 ''Bob''),
      StartGame ''sockA'' (Some [ex_question]) None 0,
      Buzz ''sockA'' (JNum 10)]"

text \<open>
  \<open>unlocked_ok\<close>: in every registered party with a current buzzer the buzz lock is off.
\<close>

definition unlocked_ok :: "(party_code \<rightharpoonup> party) \<Rightarrow> bool" where
  "unlocked_ok ps = (\<forall>c p g x. ps c = Some p \<longrightarrow> gameState p = Some g \<longrightarrow>
      buzzedPlayerId g = Some x \<longrightarrow> \<not> buzzLocked g)"

text \<open>The sole player of \<open>ex_buzzed\<close> answers correctly.\<close>

definition ex_answered :: "event list" where
  "ex_answered = ex_buzzed @ [SubmitAnswer ''sockA'' (JBool True)]"




text \<open>
  \<open>buzzHeldBy s c b\<close>: the party registered under \<open>c\<close> has a game whose current buzzer
  is \<open>b\<close>. \<open>releases b e\<close> picks the events that may end this: a question advance (asked
  for by the host or run by a timer), a new game, and an answer sent by \<open>b\<close> itself.
\<close>

definition buzzHeldBy :: "server \<Rightarrow> party_code \<Rightarrow> conn_id \<Rightarrow> bool" where
  "buzzHeldBy s c b = (map_option buzzedPlayerId (gameOf s c) = Some (Some b))"

fun releases :: "conn_id \<Rightarrow> event \<Rightarrow> bool" where
  "releases b (StartGame sid qs st now) = True"
| "releases b (NextQuestion sid cb) = True"
| "releases b (TimerFires h) = True"
| "releases b (SubmitAnswer sid v) = (sid = b)"
| "releases b (CreateParty sid nm draws) = False"
| "releases b (JoinParty sid c nm) = False"
| "releases b (LeaveParty sid) = False"
| "releases b (Buzz sid v) = False"
| "releases b (ReadingProgress sid v) = False"
| "releases b (AnswerTyping sid v) = False"
| "releases b (Disconnect sid) = False"

text \<open>
  The buzzer sockA of \<open>ex_host_buzzed\<close> leaves; then it joins the party again and sends
  an incorrect answer. No question advance and no new game take place.
\<close>

definition ex_buzzer_left :: "event list" where
  "ex_buzzer_left = ex_host_buzzed @ [LeaveParty ''sockA'']"

definition ex_buzzer_rejoined :: "event list" where
  "ex_buzzer_rejoined = ex_buzzer_left @
     [JoinParty ''sockA'' ''1000'' (utf16 ''Ann''),
      SubmitAnswer ''sockA'' (JBool False)]"

section \<open>Invariants of the reachable states\<close>

text \<open>
  \<open>one_host\<close>: exactly one player of the roster has the flag \<open>isHost\<close>, and it is the
  player \<open>party.host\<close> refers to. \<open>buzzer_fresh\<close>: the current buzzer has not attempted
  the current question. \<open>finished_past_end\<close>: a finished game has advanced past its last
  question. \<open>indexed\<close>: a socket that \<open>playerToParty\<close> maps to a code is
  on the roster of the party registered under that code, and the code is a non-empty
  string. \<open>handles_below\<close>: the handles of the pending timers are older than the next one.
\<close>

definition one_host :: "party \<Rightarrow> bool" where
  "one_host p = (map pid (filter isHost (players p)) = [host p])"

definition buzzer_fresh :: "party \<Rightarrow> bool" where
  "buzzer_fresh p =
     (case gameState p of
        None \<Rightarrow> True
      | Some g \<Rightarrow> (case buzzedPlayerId g of None \<Rightarrow> True | Some x \<Rightarrow> x \<notin> set (attempted g)))"

definition finished_past_end :: "party \<Rightarrow> bool" where
  "finished_past_end p =
     (map_option status (gameState p) = Some Finished \<longrightarrow>
        int (length (questions p)) \<le> currentQuestionIndex p)"

definition party_ok :: "party \<Rightarrow> bool" where
  "party_ok p = (players p \<noteq> [] \<and> one_host p \<and> buzzer_fresh p \<and> finished_past_end p)"

definition indexed :: "(party_code \<rightharpoonup> party) \<Rightarrow> (conn_id \<rightharpoonup> party_code) \<Rightarrow> bool" where
  "indexed ps idx = (\<forall>sid c. idx sid = Some c \<longrightarrow>
      c \<noteq> [] \<and> (\<exists>p. ps c = Some p \<and> sid \<in> pid ` set (players p)))"

definition all_ok :: "(party_code \<rightharpoonup> party) \<Rightarrow> bool" where
  "all_ok ps = (\<forall>c p. ps c = Some p \<longrightarrow> party_ok p)"

definition handles_below :: "timer list \<Rightarrow> nat \<Rightarrow> bool" where
  "handles_below ts n = (\<forall>t \<in> set ts. handle t < n)"

definition server_ok :: "server \<Rightarrow> bool" where
  "server_ok s = (indexed (parties s) (playerToParty s) \<and> all_ok (parties s)
      \<and> handles_below (timers s) (nextHandle s))"

section \<open>Auxiliary facts\<close>

lemma toString_nonempty: "toString n \<noteq> []"
  by (subst toString.simps) simp

lemma generatePartyCode_fresh:
  "generatePartyCode ps draws = Some c \<Longrightarrow> ps c = None \<and> c \<noteq> []"
  by (induction draws) (auto simp: Let_def toString_nonempty split: if_splits)

lemma map_pid_addScore [simp]: "map pid (addScore i n ps) = map pid ps"
  by (induction ps) auto

lemma set_pid_addScore [simp]: "pid ` set (addScore i n ps) = pid ` set ps"
  using map_pid_addScore [of i n ps] by (metis set_map)

lemma addScore_nonempty [simp]: "addScore i n ps = [] \<longleftrightarrow> ps = []"
  by (cases ps) auto

lemma length_addScore [simp]: "length (addScore i n ps) = length ps"
  by (induction ps) auto

lemma hosts_addScore [simp]:
  "map pid (filter isHost (addScore i n ps)) = map pid (filter isHost ps)"
  by (induction ps) auto

lemma hosts_reset [simp]:
  "map pid (filter isHost (map (score_update k) ps)) = map pid (filter isHost ps)"
  by (induction ps) auto

lemma set_pid_reset [simp]: "pid ` score_update k ` A = pid ` A"
  by (auto simp: image_iff)

lemma hosts_sort:
  "map pid (filter isHost ps) = [h] \<Longrightarrow> map pid (filter isHost (sort_key f ps)) = [h]"
proof -
  assume a: "map pid (filter isHost ps) = [h]"
  then obtain x where x: "filter isHost ps = [x]" by auto
  have "filter isHost (sort_key f ps) = sort_key f (filter isHost ps)"
    by (rule filter_sort)
  with x a show ?thesis by simp
qed

lemma sort_key_nonempty [simp]: "sort_key f xs = [] \<longleftrightarrow> xs = []"
  by (metis length_sort length_0_conv)

subsection \<open>The index\<close>

lemma indexedD:
  "indexed ps idx \<Longrightarrow> idx sid = Some c \<Longrightarrow>
     c \<noteq> [] \<and> (\<exists>p. ps c = Some p \<and> sid \<in> pid ` set (players p))"
  by (simp add: indexed_def)

lemma indexed_update:
  assumes "ps c = Some p" and "indexed ps idx"
    and "pid ` set (players p) \<subseteq> pid ` set (players p')"
  shows "indexed (ps(c \<mapsto> p')) idx"
  unfolding indexed_def
proof (intro allI impI)
  fix sid d assume "idx sid = Some d"
  from indexedD [OF assms(2) this]
  obtain q where q: "d \<noteq> []" "ps d = Some q" "sid \<in> pid ` set (players q)" by blast
  with assms show "d \<noteq> [] \<and> (\<exists>p. (ps(c \<mapsto> p')) d = Some p \<and> sid \<in> pid ` set (players p))"
    by (cases "d = c") auto
qed

lemma indexed_enter:
  assumes "indexed ps idx" and "c \<noteq> []"
    and "\<And>p. ps c = Some p \<Longrightarrow> pid ` set (players p) \<subseteq> pid ` set (players p')"
    and "sid \<in> pid ` set (players p')"
  shows "indexed (ps(c \<mapsto> p')) (idx(sid \<mapsto> c))"
  unfolding indexed_def
proof (intro allI impI)
  fix x d assume a: "(idx(sid \<mapsto> c)) x = Some d"
  show "d \<noteq> [] \<and> (\<exists>p. (ps(c \<mapsto> p')) d = Some p \<and> x \<in> pid ` set (players p))"
  proof (cases "x = sid")
    case True
    with a assms show ?thesis by auto
  next
    case False
    with a have "idx x = Some d" by auto
    from indexedD [OF assms(1) this]
    obtain q where q: "d \<noteq> []" "ps d = Some q" "x \<in> pid ` set (players q)" by blast
    with assms(3)[of q] show ?thesis by (cases "d = c") auto
  qed
qed

lemma indexed_exit:
  assumes "ps c = Some p" and "indexed ps idx"
    and "pid ` set (players p) - {sid} \<subseteq> pid ` set (players p')"
  shows "indexed (ps(c \<mapsto> p')) (idx(sid := None))"
  unfolding indexed_def
proof (intro allI impI)
  fix x d assume a: "(idx(sid := None)) x = Some d"
  then have x: "x \<noteq> sid" "idx x = Some d" by (auto split: if_splits)
  from indexedD [OF assms(2) x(2)]
  obtain q where q: "d \<noteq> []" "ps d = Some q" "x \<in> pid ` set (players q)" by blast
  with x assms show "d \<noteq> [] \<and> (\<exists>p. (ps(c \<mapsto> p')) d = Some p \<and> x \<in> pid ` set (players p))"
    by (cases "d = c") auto
qed

lemma indexed_delete:
  assumes "ps c = Some p" and "indexed ps idx"
    and "filter (\<lambda>q. pid q \<noteq> sid) (players p) = []"
  shows "indexed (ps(c := None)) (idx(sid := None))"
  unfolding indexed_def
proof (intro allI impI)
  fix x d assume a: "(idx(sid := None)) x = Some d"
  then have x: "x \<noteq> sid" "idx x = Some d" by (auto split: if_splits)
  from indexedD [OF assms(2) x(2)]
  obtain q where q: "d \<noteq> []" "ps d = Some q" "x \<in> pid ` set (players q)" by blast
  have "d \<noteq> c"
  proof
    assume "d = c"
    with q assms(1) have "x \<in> pid ` set (players p)" by simp
    then obtain y where "y \<in> set (players p)" "pid y = x" by auto
    with x(1) have "y \<in> set (filter (\<lambda>q. pid q \<noteq> sid) (players p))" by simp
    with assms(3) show False by simp
  qed
  with q show "d \<noteq> [] \<and> (\<exists>p. (ps(c := None)) d = Some p \<and> x \<in> pid ` set (players p))"
    by auto
qed

subsection \<open>The parties\<close>

lemma all_ok_update: "all_ok ps \<Longrightarrow> party_ok p' \<Longrightarrow> all_ok (ps(c \<mapsto> p'))"
  by (auto simp: all_ok_def)

lemma all_ok_delete: "all_ok ps \<Longrightarrow> all_ok (ps(c := None))"
  by (auto simp: all_ok_def split: if_splits)

lemma all_okD: "all_ok ps \<Longrightarrow> ps c = Some p \<Longrightarrow> party_ok p"
  by (simp add: all_ok_def)

lemma assignNewHost_ok:
  assumes "party_ok p" and "filter (\<lambda>q. pid q \<noteq> sid) (players p) \<noteq> []"
  shows "party_ok (assignNewHost sid (p\<lparr>players := filter (\<lambda>q. pid q \<noteq> sid) (players p)\<rparr>))"
proof -
  let ?rest = "filter (\<lambda>q. pid q \<noteq> sid) (players p)"
  from assms(1) obtain x where x: "filter isHost (players p) = [x]" "pid x = host p"
    by (auto simp: party_ok_def one_host_def)
  have comm: "filter isHost ?rest = filter (\<lambda>q. pid q \<noteq> sid) (filter isHost (players p))"
    by (simp add: conj_commute)
  from assms(1) have fresh: "buzzer_fresh p" "finished_past_end p" by (simp_all add: party_ok_def)
  show ?thesis
  proof (cases "host p = sid")
    case True
    with comm x have none: "filter isHost ?rest = []" by simp
    from assms(2) obtain y ys where y: "?rest = y # ys" by (cases ?rest) auto
    with none have "filter isHost ys = []" by (auto split: if_splits)
    with True y fresh show ?thesis
      by (simp add: assignNewHost_def party_ok_def one_host_def buzzer_fresh_def finished_past_end_def)
  next
    case False
    with comm x have "filter isHost ?rest = [x]" by simp
    with False x assms(2) fresh show ?thesis
      by (simp add: assignNewHost_def party_ok_def one_host_def buzzer_fresh_def finished_past_end_def)
  qed
qed

lemma assignNewHost_ids [simp]:
  "pid ` set (players (assignNewHost sid p)) = pid ` set (players p)"
  by (auto simp: assignNewHost_def split: list.splits)

lemma handles_below_append:
  "handles_below ts n \<Longrightarrow> handles_below (ts @ [\<lparr>handle = n, delay = d, callback = cb\<rparr>]) (Suc n)"
  by (auto simp: handles_below_def less_Suc_eq)

lemma handles_below_filter:
  "handles_below ts n \<Longrightarrow> handles_below (filter P ts) n"
  by (auto simp: handles_below_def)

subsection \<open>Every handler keeps the invariant\<close>

lemma on_buzz_shape:
  "(\<exists>e. on_buzz sid v s = (Failure e, [], s)) \<or>
   (\<exists>c p g out. playerToParty s sid = Some c \<and> c \<noteq> [] \<and> parties s c = Some p \<and>
      gameState p = Some g \<and> \<not> buzzLocked g \<and> sid \<notin> set (attempted g) \<and>
      on_buzz sid v s = (Success, out,
        s\<lparr>parties := (parties s)(c \<mapsto> p\<lparr>gameState := Some (g\<lparr>buzzedPlayerId := Some sid,
             buzzPoint := (case v of JNum n \<Rightarrow> n | _ \<Rightarrow> 0),
             lastIncorrectPlayerId := None\<rparr>)\<rparr>)\<rparr>))"
  by (auto simp: on_buzz_def getParty_def Let_def split: option.splits)

lemma server_ok_buzz:
  assumes "server_ok s" shows "server_ok (snd (snd (on_buzz sid v s)))"
  using on_buzz_shape [of sid v s]
proof (elim disjE exE conjE)
  fix e assume "on_buzz sid v s = (Failure e, [], s)"
  with assms show ?thesis by simp
next
  fix c and p :: party and g :: gameState and out
  let ?g = "g\<lparr>buzzedPlayerId := Some sid,
             buzzPoint := (case v of JNum n \<Rightarrow> n | _ \<Rightarrow> 0),
             lastIncorrectPlayerId := None\<rparr>"
  let ?s = "s\<lparr>parties := (parties s)(c \<mapsto> p\<lparr>gameState := Some ?g\<rparr>)\<rparr>"
  assume a: "parties s c = Some p" "gameState p = Some g" "sid \<notin> set (attempted g)"
    and r: "on_buzz sid v s = (Success, out, ?s)"
  from assms a have p: "party_ok p" by (auto simp: server_ok_def dest: all_okD)
  with a have "party_ok (p\<lparr>gameState := Some ?g\<rparr>)"
    by (simp add: party_ok_def one_host_def buzzer_fresh_def finished_past_end_def)
  with assms a have "server_ok ?s"
    by (simp add: server_ok_def indexed_update all_ok_update)
  with r show ?thesis by simp
qed


lemma party_ok_fields [simp]:
  "party_ok (p\<lparr>pendingAdvanceTimeout := t\<rparr>) = party_ok p"
  "party_ok (p\<lparr>settings := st\<rparr>) = party_ok p"
  by (simp_all add: party_ok_def one_host_def buzzer_fresh_def finished_past_end_def)

lemma server_ok_create:
  "server_ok s \<Longrightarrow> on_create_party ops sid nm draws s = Inr (r, out, s') \<Longrightarrow> server_ok s'"
  by (auto simp: on_create_party_def server_ok_def Let_def party_ok_def one_host_def
        buzzer_fresh_def finished_past_end_def
      split: if_splits option.splits dest!: generatePartyCode_fresh
      intro!: indexed_enter all_ok_update)

lemma party_ok_join:
  "party_ok p \<Longrightarrow> \<not> isHost np \<Longrightarrow> party_ok (p\<lparr>players := players p @ [np]\<rparr>)"
  by (simp add: party_ok_def one_host_def buzzer_fresh_def finished_past_end_def)

lemma server_ok_join:
  "server_ok s \<Longrightarrow> server_ok (snd (snd (on_join_party ops sid c nm s)))"
  by (auto simp: on_join_party_def server_ok_def Let_def getParty_def
      split: if_splits option.splits dest: all_okD
      intro!: indexed_enter all_ok_update party_ok_join)

lemma server_ok_leave:
  "server_ok s \<Longrightarrow> server_ok (snd (snd (on_leave_party sid s)))"
  by (auto simp: on_leave_party_def server_ok_def Let_def getParty_def
      split: if_splits option.splits dest: all_okD
      intro!: indexed_exit indexed_delete all_ok_update all_ok_delete assignNewHost_ok)

lemma server_ok_disconnect:
  "server_ok s \<Longrightarrow> server_ok (snd (on_disconnect sid s))"
  by (auto simp: on_disconnect_def server_ok_def Let_def getParty_def
      split: if_splits option.splits dest: all_okD
      intro!: indexed_exit indexed_delete all_ok_update all_ok_delete assignNewHost_ok)



lemma all_ok_players: "all_ok ps \<Longrightarrow> ps c = Some p \<Longrightarrow> players p \<noteq> []"
  by (auto simp: party_ok_def dest: all_okD)

lemma all_ok_hosts:
  "all_ok ps \<Longrightarrow> ps c = Some p \<Longrightarrow> map pid (filter isHost (players p)) = [host p]"
  by (auto simp: party_ok_def one_host_def dest: all_okD)

lemma all_ok_fresh:
  "all_ok ps \<Longrightarrow> ps c = Some p \<Longrightarrow> gameState p = Some g \<Longrightarrow> buzzedPlayerId g = Some x
     \<Longrightarrow> x \<notin> set (attempted g)"
  by (auto simp: party_ok_def buzzer_fresh_def finished_past_end_def dest: all_okD)

lemma all_ok_finished:
  "all_ok ps \<Longrightarrow> ps c = Some p \<Longrightarrow> gameState p = Some g \<Longrightarrow> status g = Finished
     \<Longrightarrow> int (length (questions p)) \<le> currentQuestionIndex p"
  by (auto simp: party_ok_def finished_past_end_def dest: all_okD)

lemma all_ok_not_finished:
  "all_ok ps \<Longrightarrow> ps c = Some p \<Longrightarrow> gameState p = Some g
     \<Longrightarrow> \<not> int (length (questions p)) \<le> currentQuestionIndex p + 1 \<Longrightarrow> status g \<noteq> Finished"
  using all_ok_finished [of ps c p g] by auto

lemmas all_ok_facts = all_ok_players all_ok_hosts all_ok_fresh all_ok_finished

lemma server_ok_start:
  "server_ok s \<Longrightarrow> server_ok (snd (snd (on_start_game sid qs st now s)))"
  by (auto simp: on_start_game_def server_ok_def Let_def getParty_def
        party_ok_def one_host_def buzzer_fresh_def finished_past_end_def all_ok_facts
      split: if_splits option.splits
      intro!: indexed_update all_ok_update)

lemma server_ok_submit:
  "server_ok s \<Longrightarrow> server_ok (snd (snd (on_submit_answer sid v s)))"
  by (auto simp: on_submit_answer_def server_ok_def Let_def getParty_def setTimeout_def
        party_ok_def one_host_def buzzer_fresh_def finished_past_end_def all_ok_facts
      split: if_splits option.splits
      intro!: indexed_update all_ok_update handles_below_append)

lemma server_ok_advance:
  "server_ok s \<Longrightarrow> advanceToNextQuestion c s = Inr (out, s') \<Longrightarrow> server_ok s'"
  by (auto simp: advanceToNextQuestion_def server_ok_def Let_def getParty_def clearTimeout_def
        party_ok_def one_host_def buzzer_fresh_def finished_past_end_def hosts_sort all_ok_facts
        all_ok_not_finished
      split: if_splits option.splits
      intro!: indexed_update all_ok_update handles_below_filter)

lemma server_ok_next:
  "server_ok s \<Longrightarrow> on_next_question sid cb s = Inr (r, out, s') \<Longrightarrow> server_ok s'"
  by (auto simp: on_next_question_def Let_def split: if_splits option.splits sum.splits
      dest: server_ok_advance)

lemma server_ok_fire:
  "server_ok s \<Longrightarrow> fire_timer h s = Inr (out, s') \<Longrightarrow> server_ok s'"
proof -
  assume ok: "server_ok s" and f: "fire_timer h s = Inr (out, s')"
  let ?s0 = "s\<lparr>timers := filter (\<lambda>t. handle t \<noteq> h) (timers s)\<rparr>"
  from ok have ok0: "server_ok ?s0"
    by (simp add: server_ok_def handles_below_filter)
  show ?thesis
  proof (cases "find (\<lambda>t. handle t = h) (timers s)")
    case None
    with f ok show ?thesis by (simp add: fire_timer_def)
  next
    case (Some t)
    show ?thesis
    proof (cases "callback t")
      case (AdvanceCb c)
      with Some f have "advanceToNextQuestion c ?s0 = Inr (out, s')"
        by (simp add: fire_timer_def)
      with ok0 show ?thesis by (rule server_ok_advance)
    next
      case (TimeUpCb c ob)
      with Some f ok0 show ?thesis
        by (auto simp: fire_timer_def server_ok_def setTimeout_def Let_def
              party_ok_def one_host_def buzzer_fresh_def finished_past_end_def all_ok_facts
            split: option.splits if_splits
            intro!: indexed_update all_ok_update handles_below_append handles_below_filter)
    qed
  qed
qed

lemma server_ok_step:
  "server_ok s \<Longrightarrow> step ops e s = Inr (r, out, s') \<Longrightarrow> server_ok s'"
proof (cases e)
  case (CreateParty sid nm draws)
  assume "server_ok s" "step ops e s = Inr (r, out, s')"
  with CreateParty show ?thesis
    by (auto split: sum.splits dest: server_ok_create)
next
  case (JoinParty sid c nm)
  assume "server_ok s" "step ops e s = Inr (r, out, s')"
  with JoinParty server_ok_join [of s ops sid c nm] show ?thesis
    by (auto split: prod.splits)
next
  case (LeaveParty sid)
  assume "server_ok s" "step ops e s = Inr (r, out, s')"
  with LeaveParty server_ok_leave [of s sid] show ?thesis
    by (auto split: prod.splits)
next
  case (StartGame sid qs st now)
  assume "server_ok s" "step ops e s = Inr (r, out, s')"
  with StartGame server_ok_start [of s sid qs st now] show ?thesis
    by (auto split: prod.splits)
next
  case (Buzz sid v)
  assume "server_ok s" "step ops e s = Inr (r, out, s')"
  with Buzz server_ok_buzz [of s sid v] show ?thesis
    by (auto split: prod.splits)
next
  case (ReadingProgress sid v)
  assume "server_ok s" "step ops e s = Inr (r, out, s')"
  with ReadingProgress show ?thesis
    by (auto simp: on_reading_progress_def split: prod.splits option.splits if_splits)
next
  case (AnswerTyping sid v)
  assume "server_ok s" "step ops e s = Inr (r, out, s')"
  with AnswerTyping show ?thesis
    by (auto simp: on_answer_typing_def split: prod.splits option.splits if_splits)
next
  case (SubmitAnswer sid v)
  assume "server_ok s" "step ops e s = Inr (r, out, s')"
  with SubmitAnswer server_ok_submit [of s sid v] show ?thesis
    by (auto split: prod.splits)
next
  case (NextQuestion sid cb)
  assume "server_ok s" "step ops e s = Inr (r, out, s')"
  with NextQuestion show ?thesis
    by (auto dest: server_ok_next)
next
  case (Disconnect sid)
  assume "server_ok s" "step ops e s = Inr (r, out, s')"
  with Disconnect server_ok_disconnect [of s sid] show ?thesis
    by (auto split: prod.splits)
next
  case (TimerFires h)
  assume "server_ok s" "step ops e s = Inr (r, out, s')"
  with TimerFires show ?thesis
    by (auto split: sum.splits dest: server_ok_fire)
qed

lemma server_ok_init: "server_ok init_server"
  by (simp add: server_ok_def init_server_def indexed_def all_ok_def handles_below_def)

lemma reachable_ok: "reachable ops s \<Longrightarrow> server_ok s"
  by (induction rule: reachable.induct) (auto intro: server_ok_init server_ok_step)

lemma reachable_run: "reachable ops s \<Longrightarrow> run ops es s = Inr s' \<Longrightarrow> reachable ops s'"
  by (induction es arbitrary: s) (auto split: sum.splits intro: reachable_step)

lemma reachable_after: "reachable ascii_ops (after es)"
  by (auto simp: after_def split: sum.splits intro: reachable_run reachable_init)

lemma find_addScore:
  "find (\<lambda>p. pid p = i) (addScore i n ps)
     = map_option (\<lambda>p. p\<lparr>score := score p + n\<rparr>) (find (\<lambda>p. pid p = i) ps)"
  by (induction ps) auto

lemma computedPoints_eq:
  "computedPoints v party g =
     (if \<not> truthy v then - 5
      else if buzzPoint g / max 1 (of_nat (currentQuestionLength party)) < 1 / 2 then 15 else 10)"
  by (auto simp: computedPoints_def currentQuestionLength_def Let_def max_def split: option.splits)

lemma reachable_code_nonempty:
  "reachable ops s \<Longrightarrow> playerToParty s sid = Some c \<Longrightarrow> c \<noteq> []"
  by (auto dest!: reachable_ok indexedD simp: server_ok_def)

lemma reachable_finished:
  "reachable ops s \<Longrightarrow> parties s c = Some p \<Longrightarrow> gameState p = Some g \<Longrightarrow> status g = Finished
     \<Longrightarrow> int (length (questions p)) \<le> currentQuestionIndex p"
  by (auto dest!: reachable_ok simp: server_ok_def intro: all_ok_finished)

lemma reachable_on_roster:
  assumes "reachable ops s" and "playerToParty s sid = Some c" and "parties s c = Some p"
  shows "\<exists>pl. find (\<lambda>q. pid q = sid) (players p) = Some pl"
proof -
  from assms(1) have "indexed (parties s) (playerToParty s)"
    by (auto dest: reachable_ok simp: server_ok_def)
  from indexedD [OF this assms(2)] assms(3) have "sid \<in> pid ` set (players p)" by auto
  then have "find (\<lambda>q. pid q = sid) (players p) \<noteq> None"
    by (auto simp: find_None_iff)
  then show ?thesis by auto
qed

lemma reachable_handles:
  "reachable ops s \<Longrightarrow> handles_below (timers s) (nextHandle s)"
  by (auto dest: reachable_ok simp: server_ok_def)

lemma handles_below_find:
  "handles_below ts n \<Longrightarrow> find (\<lambda>t. handle t = n) ts = None"
  by (auto simp: handles_below_def find_None_iff)

lemma handles_below_keep:
  "handles_below ts n \<Longrightarrow> filter (\<lambda>t. handle t \<noteq> n) ts = ts"
  by (auto simp: handles_below_def filter_id_conv)

lemma find_append_new:
  "find P xs = None \<Longrightarrow> P x \<Longrightarrow> find P (xs @ [x]) = Some x"
  by (induction xs) (auto split: if_splits)

lemma submit_correct_result:
  assumes "playerToParty s sid = Some c" and "c \<noteq> []" and "parties s c = Some p"
    and "gameState p = Some g" and "buzzedPlayerId g = Some sid"
    and "find (\<lambda>q. pid q = sid) (players p) = Some pl" and "truthy v"
  shows "on_submit_answer sid v s =
    (Success,
     [(c, answer_submitted sid (name pl) v (computedPoints v p g)
            (score pl + computedPoints v p g) (addScore sid (computedPoints v p g) (players p)))],
     s\<lparr>timers := timers s @ [\<lparr>handle = nextHandle s, delay = 5000, callback = AdvanceCb c\<rparr>],
       nextHandle := nextHandle s + 1,
       parties := (parties s)(c \<mapsto> p\<lparr>players := addScore sid (computedPoints v p g) (players p),
           gameState := Some (g\<lparr>buzzLocked := True\<rparr>),
           pendingAdvanceTimeout := Some (nextHandle s)\<rparr>)\<rparr>)"
  using assms
  by (simp add: on_submit_answer_def getParty_def getPlayer_def Let_def setTimeout_def)

lemma submit_incorrect_result:
  assumes "playerToParty s sid = Some c" and "c \<noteq> []" and "parties s c = Some p"
    and "gameState p = Some g" and "buzzedPlayerId g = Some sid"
    and "find (\<lambda>q. pid q = sid) (players p) = Some pl" and "\<not> truthy v"
  shows "on_submit_answer sid v s =
    (Success,
     [(c, answer_submitted sid (name pl) v (- 5) (score pl - 5) (addScore sid (- 5) (players p))),
      (c, buzz_unlocked (name pl) sid (setAdd sid (attempted g)))],
     if length (players p) \<le> length (setAdd sid (attempted g))
     then s\<lparr>timers := timers s @
              [\<lparr>handle = nextHandle s, delay = 1800, callback = TimeUpCb c (oid p)\<rparr>],
            nextHandle := nextHandle s + 1,
            parties := (parties s)(c \<mapsto> p\<lparr>players := addScore sid (- 5) (players p),
              gameState := Some (g\<lparr>buzzedPlayerId := None, buzzPoint := 0,
                                   attempted := setAdd sid (attempted g)\<rparr>),
              pendingAdvanceTimeout := Some (nextHandle s)\<rparr>)\<rparr>
     else s\<lparr>parties := (parties s)(c \<mapsto> p\<lparr>players := addScore sid (- 5) (players p),
              gameState := Some (g\<lparr>buzzedPlayerId := None, buzzPoint := 0,
                                   attempted := setAdd sid (attempted g)\<rparr>)\<rparr>)\<rparr>)"
  using assms
  by (simp add: on_submit_answer_def getParty_def getPlayer_def Let_def setTimeout_def
      computedPoints_def)
lemma computedPoints_cases: "computedPoints v p g \<in> {- 5, 10, 15}"
  by (auto simp: computedPoints_def Let_def less_max_iff_disj)

lemma computedPoints_frame:
  "computedPoints v (p\<lparr>players := ps, gameState := gs, pendingAdvanceTimeout := t\<rparr>)
     (g\<lparr>buzzLocked := b\<rparr>) = computedPoints v p g"
  by (simp add: computedPoints_def Let_def less_max_iff_disj)

lemma leave_keeps_game:
  assumes "playerToParty s b = Some c" and "c \<noteq> []" and "parties s c = Some p"
    and "filter (\<lambda>q. pid q \<noteq> b) (players p) \<noteq> []"
  shows "snd (snd (on_leave_party b s))
      = s\<lparr>parties := (parties s)(c \<mapsto>
             assignNewHost b (p\<lparr>players := filter (\<lambda>q. pid q \<noteq> b) (players p)\<rparr>)),
           playerToParty := (playerToParty s)(b := None)\<rparr>"
    and "snd (on_disconnect b s) = snd (snd (on_leave_party b s))"
    and "fst (on_leave_party b s) = Success"
  using assms
  by (simp_all add: on_leave_party_def on_disconnect_def getParty_def Let_def)


lemma assignNewHost_game [simp]: "gameState (assignNewHost b p) = gameState p"
  by (simp add: assignNewHost_def split: list.splits)

lemma assignNewHost_pids [simp]: "map pid (players (assignNewHost b p)) = map pid (players p)"
  by (simp add: assignNewHost_def split: list.splits)

lemma buzz_when_taken:
  assumes "playerToParty s q = Some c" and "c \<noteq> []" and "parties s c = Some p"
    and "gameState p = Some g" and "buzzedPlayerId g = Some b" and "b \<noteq> []"
  shows "on_buzz q v s = (Failure AlreadyBuzzed, [], s)"
  using assms by (simp add: on_buzz_def getParty_def)

lemma unlocked_update:
  "unlocked_ok ps \<Longrightarrow>
     (\<And>g x. gameState p' = Some g \<Longrightarrow> buzzedPlayerId g = Some x \<Longrightarrow> \<not> buzzLocked g)
     \<Longrightarrow> unlocked_ok (ps(c \<mapsto> p'))"
  by (auto simp: unlocked_ok_def)

lemma unlocked_delete: "unlocked_ok ps \<Longrightarrow> unlocked_ok (ps(c := None))"
  by (auto simp: unlocked_ok_def split: if_splits)

lemma unlockedD:
  "unlocked_ok ps \<Longrightarrow> ps c = Some p \<Longrightarrow> gameState p = Some g \<Longrightarrow> buzzedPlayerId g = Some x
     \<Longrightarrow> \<not> buzzLocked g"
  by (auto simp: unlocked_ok_def)

lemma unlocked_pending:
  "unlocked_ok ps \<Longrightarrow> ps c = Some p
     \<Longrightarrow> unlocked_ok (ps(c \<mapsto> p\<lparr>pendingAdvanceTimeout := t\<rparr>))"
  by (auto simp: unlocked_ok_def)

lemma unlocked_create:
  "unlocked_ok (parties s) \<Longrightarrow> on_create_party ops sid nm draws s = Inr (r, out, s')
     \<Longrightarrow> unlocked_ok (parties s')"
  by (auto simp: on_create_party_def Let_def split: if_splits option.splits
      intro!: unlocked_update)

lemma unlocked_join:
  "unlocked_ok (parties s) \<Longrightarrow> unlocked_ok (parties (snd (snd (on_join_party ops sid c nm s))))"
  by (auto simp: on_join_party_def Let_def getParty_def split: if_splits option.splits
      intro!: unlocked_update dest: unlockedD)

lemma unlocked_leave:
  "unlocked_ok (parties s) \<Longrightarrow> unlocked_ok (parties (snd (snd (on_leave_party sid s))))"
  by (auto simp: on_leave_party_def Let_def getParty_def split: if_splits option.splits
      intro!: unlocked_update unlocked_delete dest: unlockedD)

lemma unlocked_disconnect:
  "unlocked_ok (parties s) \<Longrightarrow> unlocked_ok (parties (snd (on_disconnect sid s)))"
  by (auto simp: on_disconnect_def Let_def getParty_def split: if_splits option.splits
      intro!: unlocked_update unlocked_delete dest: unlockedD)

lemma unlocked_start:
  "unlocked_ok (parties s)
     \<Longrightarrow> unlocked_ok (parties (snd (snd (on_start_game sid qs st now s))))"
  by (auto simp: on_start_game_def Let_def getParty_def split: if_splits option.splits
      intro!: unlocked_update)

lemma unlocked_buzz:
  "unlocked_ok (parties s) \<Longrightarrow> unlocked_ok (parties (snd (snd (on_buzz sid v s))))"
  by (auto simp: on_buzz_def Let_def getParty_def split: if_splits option.splits
      intro!: unlocked_update)

lemma unlocked_submit:
  "unlocked_ok (parties s) \<Longrightarrow> \<not> truthy v
     \<Longrightarrow> unlocked_ok (parties (snd (snd (on_submit_answer sid v s))))"
  by (auto simp: on_submit_answer_def Let_def getParty_def setTimeout_def
      split: if_splits option.splits intro!: unlocked_update)

lemma unlocked_advance:
  "unlocked_ok (parties s) \<Longrightarrow> advanceToNextQuestion c s = Inr (out, s')
     \<Longrightarrow> unlocked_ok (parties s')"
  by (auto simp: advanceToNextQuestion_def Let_def getParty_def clearTimeout_def
      split: if_splits option.splits intro!: unlocked_update)

lemma unlocked_next:
  "unlocked_ok (parties s) \<Longrightarrow> on_next_question sid cb s = Inr (r, out, s')
     \<Longrightarrow> unlocked_ok (parties s')"
  by (auto simp: on_next_question_def Let_def split: if_splits option.splits sum.splits
      dest: unlocked_advance)

lemma unlocked_fire:
  assumes "unlocked_ok (parties s)" and "fire_timer h s = Inr (out, s')"
  shows "unlocked_ok (parties s')"
proof (cases "find (\<lambda>t. handle t = h) (timers s)")
  case None
  with assms show ?thesis by (simp add: fire_timer_def)
next
  case (Some t)
  let ?s0 = "s\<lparr>timers := filter (\<lambda>t. handle t \<noteq> h) (timers s)\<rparr>"
  from assms(1) have u0: "unlocked_ok (parties ?s0)" by simp
  show ?thesis
  proof (cases "callback t")
    case (AdvanceCb c)
    with Some assms(2) have "advanceToNextQuestion c ?s0 = Inr (out, s')"
      by (simp add: fire_timer_def)
    with u0 show ?thesis by (rule unlocked_advance)
  next
    case (TimeUpCb c ob)
    with Some assms show ?thesis
      by (auto simp: fire_timer_def setTimeout_def Let_def split: option.splits if_splits
          intro!: unlocked_pending)
  qed
qed

lemma unlocked_step:
  assumes "unlocked_ok (parties s)" and "\<forall>sid v. e = SubmitAnswer sid v \<longrightarrow> \<not> truthy v"
    and "step ops e s = Inr (r, out, s')"
  shows "unlocked_ok (parties s')"
proof (cases e)
  case (CreateParty sid nm draws)
  with assms show ?thesis by (auto split: sum.splits dest: unlocked_create)
next
  case (JoinParty sid c nm)
  with assms unlocked_join [of s ops sid c nm] show ?thesis by (auto split: prod.splits)
next
  case (LeaveParty sid)
  with assms unlocked_leave [of s sid] show ?thesis by (auto split: prod.splits)
next
  case (StartGame sid qs st now)
  with assms unlocked_start [of s sid qs st now] show ?thesis by (auto split: prod.splits)
next
  case (Buzz sid v)
  with assms unlocked_buzz [of s sid v] show ?thesis by (auto split: prod.splits)
next
  case (ReadingProgress sid v)
  with assms show ?thesis
    by (auto simp: on_reading_progress_def split: prod.splits option.splits if_splits)
next
  case (AnswerTyping sid v)
  with assms show ?thesis
    by (auto simp: on_answer_typing_def split: prod.splits option.splits if_splits)
next
  case (SubmitAnswer sid v)
  with assms unlocked_submit [of s v sid] show ?thesis by (auto split: prod.splits)
next
  case (NextQuestion sid cb)
  with assms show ?thesis by (auto dest: unlocked_next)
next
  case (Disconnect sid)
  with assms unlocked_disconnect [of s sid] show ?thesis by (auto split: prod.splits)
next
  case (TimerFires h)
  with assms show ?thesis by (auto split: sum.splits dest: unlocked_fire)
qed






lemma frame_create:
  "on_create_party ops sid nm draws s = Inr (r, out, s') \<Longrightarrow> gameOf s' c = gameOf s c"
  by (auto simp: on_create_party_def gameOf_def Let_def split: if_splits option.splits
      dest!: generatePartyCode_fresh)

lemma frame_join: "gameOf (snd (snd (on_join_party ops sid d nm s))) c = gameOf s c"
  by (auto simp: on_join_party_def gameOf_def getParty_def Let_def split: option.splits)

lemma frame_leave:
  "gameOf (snd (snd (on_leave_party sid s))) c = gameOf s c
     \<or> parties (snd (snd (on_leave_party sid s))) c = None"
  by (auto simp: on_leave_party_def gameOf_def getParty_def Let_def split: option.splits)

lemma frame_disconnect:
  "gameOf (snd (on_disconnect sid s)) c = gameOf s c
     \<or> parties (snd (on_disconnect sid s)) c = None"
  by (auto simp: on_disconnect_def gameOf_def getParty_def Let_def split: option.splits)

lemma frame_buzz:
  "buzzHeldBy s c b \<Longrightarrow> b \<noteq> [] \<Longrightarrow> gameOf (snd (snd (on_buzz q v s))) c = gameOf s c"
  by (auto simp: on_buzz_def buzzHeldBy_def gameOf_def getParty_def Let_def
      split: option.splits)

lemma frame_submit:
  "buzzHeldBy s c b \<Longrightarrow> sid \<noteq> b
     \<Longrightarrow> gameOf (snd (snd (on_submit_answer sid v s))) c = gameOf s c"
  by (auto simp: on_submit_answer_def buzzHeldBy_def gameOf_def getParty_def Let_def
        setTimeout_def
      split: option.splits)

lemma frame_step:
  assumes "buzzHeldBy s c b" and "b \<noteq> []" and "\<not> releases b e"
    and "step ops e s = Inr (r, out, s')"
  shows "buzzHeldBy s' c b \<or> parties s' c = None"
proof (cases e)
  case (CreateParty sid nm draws)
  with assms(4) obtain r' where "on_create_party ops sid nm draws s = Inr (r', out, s')"
    by (auto split: sum.splits)
  from frame_create [OF this, of c] assms(1) show ?thesis by (simp add: buzzHeldBy_def)
next
  case (JoinParty sid d nm)
  with assms(4) have "s' = snd (snd (on_join_party ops sid d nm s))"
    by (auto split: prod.splits)
  with frame_join [of ops sid d nm s c] assms(1) show ?thesis by (simp add: buzzHeldBy_def)
next
  case (LeaveParty sid)
  with assms(4) have "s' = snd (snd (on_leave_party sid s))" by (auto split: prod.splits)
  with frame_leave [of sid s c] assms(1) show ?thesis by (auto simp: buzzHeldBy_def)
next
  case (StartGame sid qs st now)
  with assms(3) show ?thesis by simp
next
  case (Buzz q v)
  with assms(4) have "s' = snd (snd (on_buzz q v s))" by (auto split: prod.splits)
  with frame_buzz [OF assms(1,2), of q v] assms(1) show ?thesis by (simp add: buzzHeldBy_def)
next
  case (ReadingProgress sid v)
  with assms(1,4) show ?thesis
    by (auto simp: on_reading_progress_def split: prod.splits option.splits if_splits)
next
  case (AnswerTyping sid v)
  with assms(1,4) show ?thesis
    by (auto simp: on_answer_typing_def split: prod.splits option.splits if_splits)
next
  case (SubmitAnswer sid v)
  with assms(3) have ne: "sid \<noteq> b" by simp
  from SubmitAnswer assms(4) have "s' = snd (snd (on_submit_answer sid v s))"
    by (auto split: prod.splits)
  with frame_submit [OF assms(1) ne, of v] assms(1) show ?thesis by (simp add: buzzHeldBy_def)
next
  case (NextQuestion sid cb)
  with assms(3) show ?thesis by simp
next
  case (Disconnect sid)
  with assms(4) have "s' = snd (on_disconnect sid s)" by (auto split: prod.splits)
  with frame_disconnect [of sid s c] assms(1) show ?thesis by (auto simp: buzzHeldBy_def)
next
  case (TimerFires h)
  with assms(3) show ?thesis by simp
qed

lemma buzz_when_held:
  assumes "buzzHeldBy s c b" and "b \<noteq> []" and "c \<noteq> []" and "playerToParty s q = Some c"
  shows "on_buzz q v s = (Failure AlreadyBuzzed, [], s)"
proof -
  from assms(1) obtain p g where "parties s c = Some p" "gameState p = Some g"
    "buzzedPlayerId g = Some b"
    by (auto simp: buzzHeldBy_def gameOf_def bind_eq_Some_conv)
  with assms show ?thesis by (simp add: buzz_when_taken)
qed

lemma advance_when_held:
  "buzzHeldBy s c b \<Longrightarrow> advanceToNextQuestion c s = Inr (out, s')
     \<Longrightarrow> map_option buzzedPlayerId (gameOf s' c) = Some None"
  by (auto simp: advanceToNextQuestion_def buzzHeldBy_def getParty_def Let_def gameOf_def
        clearTimeout_def bind_eq_Some_conv
      split: option.splits if_splits)

section \<open>The buzz point that a buzz stores\<close>

text \<open>
  Claim C4, as the code has it: a successful buzz stores the caller as the buzzer, and as
  buzz point the number of the payload as it is, or 0 when the payload holds no number.
  Nothing clamps the number.
\<close>

theorem buzz_records_buzzPoint:
  assumes "fst (on_buzz sid v s) = Success" and "playerToParty s sid = Some c"
  shows "map_option buzzPoint (gameOf (snd (snd (on_buzz sid v s))) c)
           = Some (case v of JNum n \<Rightarrow> n | _ \<Rightarrow> 0)
       \<and> map_option buzzedPlayerId (gameOf (snd (snd (on_buzz sid v s))) c) = Some (Some sid)"
  using assms
  by (auto simp: on_buzz_def gameOf_def getParty_def Let_def split: option.splits if_splits)

theorem buzz_records_buzzPoint_witness:
  "fst (on_buzz ''sockA'' (JStr ''x'') (after ex_started)) = Success
   \<and> playerToParty (after ex_started) ''sockA'' = Some ''1000''
   \<and> map_option buzzPoint
        (gameOf (snd (snd (on_buzz ''sockA'' (JStr ''x'') (after ex_started)))) ''1000'')
      = Some 0"
proof -
  have a: "fst (on_buzz ''sockA'' (JStr ''x'') (after ex_started)) = Success"
    by code_simp
  have b: "playerToParty (after ex_started) ''sockA'' = Some ''1000''"
    by code_simp
  from buzz_records_buzzPoint [OF a b] a b show ?thesis by simp
qed

text \<open>
  Claim C4 as written fails: a buzz at the offset -3 succeeds and the stored buzz point
  is -3, a negative number.
\<close>

theorem buzz_negative_counterexample:
  "fst (on_buzz ''sockA'' (JNum (- 3)) (after ex_started)) = Success
   \<and> map_option buzzPoint
        (gameOf (snd (snd (on_buzz ''sockA'' (JNum (- 3)) (after ex_started)))) ''1000'')
      = Some (- 3)
   \<and> (- 3 :: rat) < 0"
  by code_simp

section \<open>Scoring\<close>

text \<open>
  Claim C5: a successful \<open>submit_answer\<close> adds to the score of the submitting player a
  number that depends only on the correctness flag, the stored buzz point and the length
  of the current question: -5 for an incorrect answer, 15 for a correct one when the buzz
  point divided by \<open>max(1, length)\<close> is below one half, 10 otherwise.
\<close>

theorem submit_answer_points:
  assumes "fst (on_submit_answer sid v s) = Success"
    and "playerToParty s sid = Some c"
    and "parties s c = Some party"
    and "gameState party = Some g"
  shows "\<exists>old. scoreOf s c sid = Some old \<and>
     scoreOf (snd (snd (on_submit_answer sid v s))) c sid =
       Some (old +
         (if \<not> truthy v then - 5
          else if buzzPoint g / max 1 (of_nat (currentQuestionLength party)) < 1 / 2 then 15
          else 10))"
proof -
  from assms obtain pl where pl: "find (\<lambda>p. pid p = sid) (players party) = Some pl"
    by (auto simp: on_submit_answer_def getParty_def getPlayer_def split: if_splits option.splits)
  from assms pl have "scoreOf (snd (snd (on_submit_answer sid v s))) c sid
      = Some (score pl + computedPoints v party g)"
    by (auto simp: on_submit_answer_def getParty_def getPlayer_def scoreOf_def Let_def
        setTimeout_def find_addScore split: if_splits)
  moreover from assms pl have "scoreOf s c sid = Some (score pl)"
    by (simp add: scoreOf_def getPlayer_def getParty_def)
  ultimately show ?thesis
    by (simp add: computedPoints_eq)
qed

theorem submit_answer_points_witness:
  "fst (on_submit_answer ''sockA'' (JBool True) (after ex_buzzed)) = Success
   \<and> playerToParty (after ex_buzzed) ''sockA'' = Some ''1000''
   \<and> map_option buzzPoint (gameOf (after ex_buzzed) ''1000'') = Some 10
   \<and> map_option currentQuestionLength (parties (after ex_buzzed) ''1000'') = Some 40
   \<and> scoreOf (after ex_buzzed) ''1000'' ''sockA'' = Some 0
   \<and> scoreOf (snd (snd (on_submit_answer ''sockA'' (JBool True) (after ex_buzzed))))
        ''1000'' ''sockA'' = Some 15"
proof -
  have a: "fst (on_submit_answer ''sockA'' (JBool True) (after ex_buzzed)) = Success"
    by code_simp
  have b: "playerToParty (after ex_buzzed) ''sockA'' = Some ''1000''"
    by code_simp
  have bp: "map_option buzzPoint (gameOf (after ex_buzzed) ''1000'') = Some 10"
    by code_simp
  have len: "map_option currentQuestionLength (parties (after ex_buzzed) ''1000'') = Some 40"
    by code_simp
  have old: "scoreOf (after ex_buzzed) ''1000'' ''sockA'' = Some 0"
    by code_simp
  from len obtain party where p: "parties (after ex_buzzed) ''1000'' = Some party"
    and l: "currentQuestionLength party = 40" by auto
  from bp p obtain g where g: "gameState party = Some g" and q: "buzzPoint g = 10"
    by (auto simp: gameOf_def)
  from submit_answer_points [OF a b p g] old l q
  have "scoreOf (snd (snd (on_submit_answer ''sockA'' (JBool True) (after ex_buzzed))))
        ''1000'' ''sockA'' = Some 15"
    by simp
  with a b bp len old show ?thesis by simp
qed

section \<open>Joining a party\<close>

text \<open>
  Claim C6, as the code has it. A request with an empty code, an empty name or a name
  that \<open>trim\<close> leaves empty fails with InvalidInput, whatever the registry holds. Any
  other request fails with PartyNotFound when the code is not registered, else with
  PartyFull when the roster holds 8 players or more, else with NameTaken when the trimmed
  name and the name of a member have the same \<open>toLowerCase\<close>; otherwise a player that
  is not host is appended to the roster and the socket is indexed to the code. A failed
  request changes nothing. This holds for every pair of functions \<open>trim\<close> and
  \<open>toLowerCase\<close>.
\<close>

theorem join_party_outcome:
  "(partyCode = [] \<or> playerName = [] \<or> trim ops playerName = [] \<longrightarrow>
      on_join_party ops sid partyCode playerName s = (Failure InvalidInput, [], s))
   \<and> (partyCode \<noteq> [] \<and> playerName \<noteq> [] \<and> trim ops playerName \<noteq> [] \<longrightarrow>
      (parties s partyCode = None \<longrightarrow>
         on_join_party ops sid partyCode playerName s = (Failure PartyNotFound, [], s))
      \<and> (\<forall>party. parties s partyCode = Some party \<longrightarrow>
           (8 \<le> length (players party) \<longrightarrow>
              on_join_party ops sid partyCode playerName s = (Failure PartyFull, [], s))
         \<and> (length (players party) < 8
              \<and> (\<exists>p \<in> set (players party).
                    toLowerCase ops (name p) = toLowerCase ops (trim ops playerName)) \<longrightarrow>
              on_join_party ops sid partyCode playerName s = (Failure NameTaken, [], s))
         \<and> (length (players party) < 8
              \<and> \<not> (\<exists>p \<in> set (players party).
                    toLowerCase ops (name p) = toLowerCase ops (trim ops playerName)) \<longrightarrow>
              (\<exists>party'. fst (on_join_party ops sid partyCode playerName s) = Joined sid party')
              \<and> rosterOf (snd (snd (on_join_party ops sid partyCode playerName s))) partyCode
                  = players party @ [\<lparr>pid = sid, name = trim ops playerName, score = 0,
                                      isHost = False, socketId = sid\<rparr>]
              \<and> playerToParty (snd (snd (on_join_party ops sid partyCode playerName s))) sid
                  = Some partyCode)))"
  by (auto simp: on_join_party_def getParty_def rosterOf_def Let_def list_ex_iff)

theorem join_party_outcome_witness:
  "''1000'' \<noteq> [] \<and> utf16 '' ANN '' \<noteq> [] \<and> trim ascii_ops (utf16 '' ANN '') \<noteq> []
   \<and> length (rosterOf (after ex_started) ''1000'') < 8
   \<and> map (\<lambda>p. toLowerCase ascii_ops (name p)) (rosterOf (after ex_started) ''1000'')
        = [toLowerCase ascii_ops (trim ascii_ops (utf16 '' ANN ''))]
   \<and> on_join_party ascii_ops ''sockB'' ''1000'' (utf16 '' ANN '') (after ex_started)
        = (Failure NameTaken, [], after ex_started)"
proof -
  have a: "''1000'' \<noteq> [] \<and> utf16 '' ANN '' \<noteq> [] \<and> trim ascii_ops (utf16 '' ANN '') \<noteq> []"
    by code_simp
  have b: "length (rosterOf (after ex_started) ''1000'') < 8" by code_simp
  have c: "map (\<lambda>p. toLowerCase ascii_ops (name p)) (rosterOf (after ex_started) ''1000'')
        = [toLowerCase ascii_ops (trim ascii_ops (utf16 '' ANN ''))]" by code_simp
  have "parties (after ex_started) ''1000'' \<noteq> None" by code_simp
  then obtain party where p: "parties (after ex_started) ''1000'' = Some party" by auto
  with b have b': "length (players party) < 8" by (simp add: rosterOf_def)
  from c p have "\<exists>p \<in> set (players party).
      toLowerCase ascii_ops (name p) = toLowerCase ascii_ops (trim ascii_ops (utf16 '' ANN ''))"
    by (cases "players party") (auto simp: rosterOf_def)
  with join_party_outcome
         [of "''1000''" "utf16 '' ANN ''" ascii_ops "''sockB''" "after ex_started"] a p b'
  have "on_join_party ascii_ops ''sockB'' ''1000'' (utf16 '' ANN '') (after ex_started)
        = (Failure NameTaken, [], after ex_started)"
    by blast
  with a b c show ?thesis by simp
qed

text \<open>
  Claim C6 as written fails: the code 9999 is not in the registry, yet a request with an
  empty name is answered with InvalidInput, not PartyNotFound.
\<close>

theorem join_party_blank_name_counterexample:
  "parties init_server ''9999'' = None
   \<and> fst (on_join_party ascii_ops ''sockB'' ''9999'' [] init_server) = Failure InvalidInput"
  by code_simp

section \<open>Advancing a finished game\<close>

text \<open>
  Claim C2, as the code has it. The handler of \<open>next_question\<close> checks that a game
  state exists and that the caller is the host; it never reads the status. In a finished
  game a request of the host is therefore accepted: the reply is a success with
  \<open>finished = true\<close>, \<open>game_finished\<close> is broadcast again, the status stays finished
  and the question index grows by one. A request of another member is rejected, with the
  error of line 439.
\<close>

theorem next_question_when_finished:
  assumes "reachable ops s" and "playerToParty s sid = Some c" and "parties s c = Some p"
    and "gameState p = Some g" and "status g = Finished"
  shows "(host p \<noteq> sid \<longrightarrow>
            on_next_question sid cb s
              = Inr (if cb then Some (Failure NotHostAdvance) else None, [], s))
       \<and> (host p = sid \<longrightarrow>
            (\<exists>out s'. on_next_question sid cb s
                 = Inr (if cb then Some (Advanced True) else None, out, s')
               \<and> out = [(c, game_finished (rosterOf s' c))]
               \<and> map_option status (gameOf s' c) = Some Finished
               \<and> map_option currentQuestionIndex (parties s' c)
                   = Some (currentQuestionIndex p + 1)))"
proof -
  from assms have c: "c \<noteq> []" by (auto dest: reachable_code_nonempty)
  from assms(1,3,4,5) have past: "int (length (questions p)) \<le> currentQuestionIndex p"
    by (rule reachable_finished)
  from assms c past show ?thesis
    by (auto simp: on_next_question_def advanceToNextQuestion_def getParty_def Let_def
        clearTimeout_def rosterOf_def gameOf_def split: option.splits)
qed

theorem next_question_when_finished_witness:
  "playerToParty (after ex_finished) ''sockA'' = Some ''1000''
   \<and> map_option status (gameOf (after ex_finished) ''1000'') = Some Finished
   \<and> map_option host (parties (after ex_finished) ''1000'') = Some ''sockA''
   \<and> map_option currentQuestionIndex (parties (after ex_finished) ''1000'') = Some 1
   \<and> (\<exists>out s'. on_next_question ''sockA'' True (after ex_finished)
           = Inr (Some (Advanced True), out, s')
         \<and> map_option status (gameOf s' ''1000'') = Some Finished
         \<and> map_option currentQuestionIndex (parties s' ''1000'') = Some 2)"
proof -
  have a: "playerToParty (after ex_finished) ''sockA'' = Some ''1000''" by code_simp
  have b: "map_option status (gameOf (after ex_finished) ''1000'') = Some Finished"
    by code_simp
  have h: "map_option host (parties (after ex_finished) ''1000'') = Some ''sockA''"
    by code_simp
  have i: "map_option currentQuestionIndex (parties (after ex_finished) ''1000'') = Some 1"
    by code_simp
  from h i obtain p where p: "parties (after ex_finished) ''1000'' = Some p"
    and hp: "host p = ''sockA''" and ip: "currentQuestionIndex p = 1" by auto
  from b p obtain g where g: "gameState p = Some g" "status g = Finished"
    by (auto simp: gameOf_def)
  from next_question_when_finished [OF reachable_after a p g, of True] hp ip
  have "\<exists>out s'. on_next_question ''sockA'' True (after ex_finished)
           = Inr (Some (Advanced True), out, s')
         \<and> map_option status (gameOf s' ''1000'') = Some Finished
         \<and> map_option currentQuestionIndex (parties s' ''1000'') = Some 2"
    by auto
  with a b h i show ?thesis by simp
qed

text \<open>
  Claim C2 as written fails: in the finished game of \<open>ex_finished\<close> the request of the
  host is not rejected, and the question index moves from 1 to 2.
\<close>

theorem next_question_when_finished_counterexample:
  "map_option status (gameOf (after ex_finished) ''1000'') = Some Finished
   \<and> map_sum id fst (on_next_question ''sockA'' True (after ex_finished))
       = Inr (Some (Advanced True))
   \<and> map_option currentQuestionIndex (parties (after ex_finished) ''1000'') = Some 1
   \<and> map_option currentQuestionIndex
        (parties (after (ex_finished @ [NextQuestion ''sockA'' True])) ''1000'') = Some 2"
  by code_simp

section \<open>Starting a game while a timer is pending\<close>

text \<open>
  Claim C3 does not hold of the code. Line 226 sets \<open>pendingAdvanceTimeout\<close> to null
  without calling \<open>clearTimeout\<close> (lines 398-401 do both): \<open>start_game\<close> leaves every
  pending timer pending. In the run \<open>ex_restarted\<close> the advance timer 0 of the first game
  is still pending after the second \<open>start_game\<close>, the party has forgotten its handle,
  and when the timer fires the new game moves from question 0 to question 1.
\<close>

theorem start_game_keeps_timers:
  "timers (snd (snd (on_start_game sid qs st now s))) = timers s
   \<and> map handle (timers (after ex_restarted)) = [0]
   \<and> map callback (timers (after ex_restarted)) = [AdvanceCb ''1000'']
   \<and> map_option pendingAdvanceTimeout (parties (after ex_restarted) ''1000'') = Some None
   \<and> map_option currentQuestionIndex (parties (after ex_restarted) ''1000'') = Some 0
   \<and> map_option currentQuestionIndex
        (parties (after (ex_restarted @ [TimerFires 0])) ''1000'') = Some 1"
proof -
  have "timers (snd (snd (on_start_game sid qs st now s))) = timers s"
    by (simp add: on_start_game_def Let_def split: option.splits)
  moreover have "map handle (timers (after ex_restarted)) = [0]" by code_simp
  moreover have "map callback (timers (after ex_restarted)) = [AdvanceCb ''1000'']"
    by code_simp
  moreover have
    "map_option pendingAdvanceTimeout (parties (after ex_restarted) ''1000'') = Some None"
    by code_simp
  moreover have
    "map_option currentQuestionIndex (parties (after ex_restarted) ''1000'') = Some 0"
    by code_simp
  moreover have "map_option currentQuestionIndex
        (parties (after (ex_restarted @ [TimerFires 0])) ''1000'') = Some 1"
    by code_simp
  ultimately show ?thesis by simp
qed

section \<open>An incorrect answer\<close>

text \<open>
  Claim C8: when the current buzzer submits an incorrect answer, the buzzer and the buzz
  point are cleared, the caller joins the attempted set and \<open>buzz_unlocked\<close> is
  broadcast with that set. When the attempted set is then at least as large as the
  roster, exactly one timer is armed, of 1800 ms, whose firing broadcasts \<open>time_up\<close>
  and only then arms the advance timer of 5000 ms; otherwise no timer is armed.
\<close>

theorem submit_incorrect_effect:
  assumes "reachable ops s" and "playerToParty s sid = Some c" and "parties s c = Some p"
    and "gameState p = Some g" and "buzzedPlayerId g = Some sid" and "\<not> truthy v"
  shows "fst (on_submit_answer sid v s) = Success
    \<and> gameOf (snd (snd (on_submit_answer sid v s))) c
        = Some (g\<lparr>buzzedPlayerId := None, buzzPoint := 0,
                   attempted := setAdd sid (attempted g)\<rparr>)
    \<and> sid \<in> set (setAdd sid (attempted g))
    \<and> (\<exists>nm. (c, buzz_unlocked nm sid (setAdd sid (attempted g)))
             \<in> set (fst (snd (on_submit_answer sid v s))))
    \<and> (length (players p) \<le> length (setAdd sid (attempted g)) \<longrightarrow>
         timers (snd (snd (on_submit_answer sid v s)))
           = timers s @ [\<lparr>handle = nextHandle s, delay = 1800,
                          callback = TimeUpCb c (oid p)\<rparr>]
         \<and> (\<exists>s''. fire_timer (nextHandle s) (snd (snd (on_submit_answer sid v s)))
                  = Inr ([(c, time_up)], s'')
                \<and> timers s'' = timers s @ [\<lparr>handle = nextHandle s + 1, delay = 5000,
                                              callback = AdvanceCb c\<rparr>]
                \<and> map_option pendingAdvanceTimeout (parties s'' c)
                    = Some (Some (nextHandle s + 1))))
    \<and> (length (setAdd sid (attempted g)) < length (players p) \<longrightarrow>
         timers (snd (snd (on_submit_answer sid v s))) = timers s)"
proof -
  from assms have c: "c \<noteq> []" by (auto dest: reachable_code_nonempty)
  from reachable_on_roster [OF assms(1-3)]
  obtain pl where pl: "find (\<lambda>q. pid q = sid) (players p) = Some pl" by blast
  note r = submit_incorrect_result [OF assms(2) c assms(3-5) pl assms(6)]
  from assms(1) have hb: "handles_below (timers s) (nextHandle s)" by (rule reachable_handles)
  have fire: "find (\<lambda>t. handle t = nextHandle s)
        (timers s @ [\<lparr>handle = nextHandle s, delay = 1800, callback = TimeUpCb c (oid p)\<rparr>])
      = Some \<lparr>handle = nextHandle s, delay = 1800, callback = TimeUpCb c (oid p)\<rparr>"
    by (rule find_append_new [OF handles_below_find [OF hb]]) simp
  have 1: "fst (on_submit_answer sid v s) = Success" by (simp add: r)
  have 2: "gameOf (snd (snd (on_submit_answer sid v s))) c
        = Some (g\<lparr>buzzedPlayerId := None, buzzPoint := 0,
                   attempted := setAdd sid (attempted g)\<rparr>)"
    by (simp add: r gameOf_def)
  have 3: "sid \<in> set (setAdd sid (attempted g))" by (simp add: setAdd_def)
  have 4: "\<exists>nm. (c, buzz_unlocked nm sid (setAdd sid (attempted g)))
             \<in> set (fst (snd (on_submit_answer sid v s)))"
    by (simp add: r)
  have 5: "length (players p) \<le> length (setAdd sid (attempted g)) \<longrightarrow>
         timers (snd (snd (on_submit_answer sid v s)))
           = timers s @ [\<lparr>handle = nextHandle s, delay = 1800,
                          callback = TimeUpCb c (oid p)\<rparr>]
         \<and> (\<exists>s''. fire_timer (nextHandle s) (snd (snd (on_submit_answer sid v s)))
                  = Inr ([(c, time_up)], s'')
                \<and> timers s'' = timers s @ [\<lparr>handle = nextHandle s + 1, delay = 5000,
                                              callback = AdvanceCb c\<rparr>]
                \<and> map_option pendingAdvanceTimeout (parties s'' c)
                    = Some (Some (nextHandle s + 1)))"
    by (simp add: r fire_timer_def fire setTimeout_def Let_def handles_below_keep [OF hb])
  have 6: "length (setAdd sid (attempted g)) < length (players p) \<longrightarrow>
         timers (snd (snd (on_submit_answer sid v s))) = timers s"
    by (simp add: r)
  from 1 2 3 4 5 6 show ?thesis by blast
qed

theorem submit_incorrect_effect_witness:
  "playerToParty (after ex_last_attempt) ''sockB'' = Some ''1000''
   \<and> map_option buzzedPlayerId (gameOf (after ex_last_attempt) ''1000'') = Some (Some ''sockB'')
   \<and> \<not> truthy (JBool False)
   \<and> timers (snd (snd (on_submit_answer ''sockB'' (JBool False) (after ex_last_attempt))))
       = [\<lparr>handle = 0, delay = 1800, callback = TimeUpCb ''1000'' 0\<rparr>]
   \<and> (\<exists>s''. fire_timer 0
                (snd (snd (on_submit_answer ''sockB'' (JBool False) (after ex_last_attempt))))
              = Inr ([(''1000'', time_up)], s'')
            \<and> timers s'' = [\<lparr>handle = 1, delay = 5000, callback = AdvanceCb ''1000''\<rparr>])"
proof -
  have w: "let s = after ex_last_attempt in
      playerToParty s ''sockB'' = Some ''1000''
      \<and> map_option buzzedPlayerId (gameOf s ''1000'') = Some (Some ''sockB'')
      \<and> map_option attempted (gameOf s ''1000'') = Some [''sockA'']
      \<and> length (rosterOf s ''1000'') = 2
      \<and> timers s = [] \<and> nextHandle s = 0
      \<and> map_option oid (parties s ''1000'') = Some 0"
    by code_simp
  then have a: "playerToParty (after ex_last_attempt) ''sockB'' = Some ''1000''"
    and b: "map_option buzzedPlayerId (gameOf (after ex_last_attempt) ''1000'')
              = Some (Some ''sockB'')"
    and at: "map_option attempted (gameOf (after ex_last_attempt) ''1000'') = Some [''sockA'']"
    and len: "length (rosterOf (after ex_last_attempt) ''1000'') = 2"
    and ts: "timers (after ex_last_attempt) = []" "nextHandle (after ex_last_attempt) = 0"
    and ob: "map_option oid (parties (after ex_last_attempt) ''1000'') = Some 0"
    by (simp_all add: Let_def)
  from ob obtain p where p: "parties (after ex_last_attempt) ''1000'' = Some p"
    and op: "oid p = 0" by auto
  from b at p obtain g where g: "gameState p = Some g" "buzzedPlayerId g = Some ''sockB''"
    and ag: "attempted g = [''sockA'']" by (auto simp: gameOf_def)
  from len p have lp: "length (players p) = 2" by (simp add: rosterOf_def)
  have f: "\<not> truthy (JBool False)" by simp
  from submit_incorrect_effect [OF reachable_after a p g f] ts op ag lp
  have "timers (snd (snd (on_submit_answer ''sockB'' (JBool False) (after ex_last_attempt))))
       = [\<lparr>handle = 0, delay = 1800, callback = TimeUpCb ''1000'' 0\<rparr>]
   \<and> (\<exists>s''. fire_timer 0
                (snd (snd (on_submit_answer ''sockB'' (JBool False) (after ex_last_attempt))))
              = Inr ([(''1000'', time_up)], s'')
            \<and> timers s'' = [\<lparr>handle = 1, delay = 5000, callback = AdvanceCb ''1000''\<rparr>])"
    by (auto simp: setAdd_def)
  with a b f show ?thesis by blast
qed

section \<open>Answering twice\<close>

text \<open>
  Claim C10: whenever a game state exists and the caller is the current buzzer,
  \<open>submit_answer\<close> succeeds. A correct answer leaves the buzzer in place with the buzz
  lock set and the advance timer pending, so the same player can submit once more: the
  second call succeeds too and its points are added on top of the first ones.
\<close>

theorem submit_by_buzzer_succeeds:
  assumes "reachable ops s" and "playerToParty s sid = Some c" and "parties s c = Some p"
    and "gameState p = Some g" and "buzzedPlayerId g = Some sid"
  shows "fst (on_submit_answer sid v s) = Success
    \<and> (truthy v \<longrightarrow>
         map_option buzzedPlayerId (gameOf (snd (snd (on_submit_answer sid v s))) c)
           = Some (Some sid)
       \<and> map_option buzzLocked (gameOf (snd (snd (on_submit_answer sid v s))) c) = Some True
       \<and> timers (snd (snd (on_submit_answer sid v s)))
           = timers s @ [\<lparr>handle = nextHandle s, delay = 5000, callback = AdvanceCb c\<rparr>]
       \<and> (\<forall>v'. fst (on_submit_answer sid v' (snd (snd (on_submit_answer sid v s)))) = Success
              \<and> computedPoints v' p g \<in> {- 5, 10, 15}
              \<and> (\<exists>old. scoreOf s c sid = Some old
                   \<and> scoreOf (snd (snd (on_submit_answer sid v s))) c sid
                       = Some (old + computedPoints v p g)
                   \<and> scoreOf (snd (snd (on_submit_answer sid v'
                                  (snd (snd (on_submit_answer sid v s)))))) c sid
                       = Some (old + computedPoints v p g + computedPoints v' p g))))"
proof -
  from assms have c: "c \<noteq> []" by (auto dest: reachable_code_nonempty)
  from reachable_on_roster [OF assms(1-3)]
  obtain pl where pl: "find (\<lambda>q. pid q = sid) (players p) = Some pl" by blast
  have first: "fst (on_submit_answer sid v s) = Success"
  proof (cases "truthy v")
    case True
    from submit_correct_result [OF assms(2) c assms(3-5) pl True] show ?thesis by simp
  next
    case False
    from submit_incorrect_result [OF assms(2) c assms(3-5) pl False] show ?thesis by simp
  qed
  have again: "map_option buzzedPlayerId (gameOf (snd (snd (on_submit_answer sid v s))) c)
           = Some (Some sid)
       \<and> map_option buzzLocked (gameOf (snd (snd (on_submit_answer sid v s))) c) = Some True
       \<and> timers (snd (snd (on_submit_answer sid v s)))
           = timers s @ [\<lparr>handle = nextHandle s, delay = 5000, callback = AdvanceCb c\<rparr>]
       \<and> (\<forall>v'. fst (on_submit_answer sid v' (snd (snd (on_submit_answer sid v s)))) = Success
              \<and> computedPoints v' p g \<in> {- 5, 10, 15}
              \<and> (\<exists>old. scoreOf s c sid = Some old
                   \<and> scoreOf (snd (snd (on_submit_answer sid v s))) c sid
                       = Some (old + computedPoints v p g)
                   \<and> scoreOf (snd (snd (on_submit_answer sid v'
                                  (snd (snd (on_submit_answer sid v s)))))) c sid
                       = Some (old + computedPoints v p g + computedPoints v' p g)))"
    if t: "truthy v"
  proof -
    let ?pts = "computedPoints v p g"
    let ?p1 = "p\<lparr>players := addScore sid ?pts (players p),
           gameState := Some (g\<lparr>buzzLocked := True\<rparr>),
           pendingAdvanceTimeout := Some (nextHandle s)\<rparr>"
    let ?s1 = "s\<lparr>timers := timers s @ [\<lparr>handle = nextHandle s, delay = 5000, callback = AdvanceCb c\<rparr>],
       nextHandle := nextHandle s + 1, parties := (parties s)(c \<mapsto> ?p1)\<rparr>"
    from submit_correct_result [OF assms(2) c assms(3-5) pl t]
    have s1: "snd (snd (on_submit_answer sid v s)) = ?s1" by simp
    have i1: "playerToParty ?s1 sid = Some c" using assms(2) by simp
    have p1: "parties ?s1 c = Some ?p1" by simp
    have g1: "gameState ?p1 = Some (g\<lparr>buzzLocked := True\<rparr>)" by simp
    have b1: "buzzedPlayerId (g\<lparr>buzzLocked := True\<rparr>) = Some sid" using assms(5) by simp
    have f1: "find (\<lambda>q. pid q = sid) (players ?p1) = Some (pl\<lparr>score := score pl + ?pts\<rparr>)"
      using pl by (simp add: find_addScore)
    have old: "scoreOf s c sid = Some (score pl)"
      using assms(3) pl by (simp add: scoreOf_def getPlayer_def getParty_def)
    have new: "scoreOf ?s1 c sid = Some (score pl + ?pts)"
      using f1 by (simp add: scoreOf_def getPlayer_def getParty_def)
    have second: "fst (on_submit_answer sid v' ?s1) = Success
        \<and> scoreOf (snd (snd (on_submit_answer sid v' ?s1))) c sid
            = Some (score pl + ?pts + computedPoints v' p g)" for v'
    proof (cases "truthy v'")
      case True
      from submit_correct_result [OF i1 c p1 g1 b1 f1 True] pl show ?thesis
        by (simp add: scoreOf_def getPlayer_def getParty_def find_addScore computedPoints_frame)
    next
      case False
      from submit_incorrect_result [OF i1 c p1 g1 b1 f1 False] pl False show ?thesis
        by (simp add: scoreOf_def getPlayer_def getParty_def find_addScore computedPoints_def)
    qed
    have obs: "map_option buzzedPlayerId (gameOf ?s1 c) = Some (Some sid)
        \<and> map_option buzzLocked (gameOf ?s1 c) = Some True
        \<and> timers ?s1
           = timers s @ [\<lparr>handle = nextHandle s, delay = 5000, callback = AdvanceCb c\<rparr>]"
      using assms(5) by (simp add: gameOf_def)
    have rep: "\<forall>v'. fst (on_submit_answer sid v' ?s1) = Success
              \<and> computedPoints v' p g \<in> {- 5, 10, 15}
              \<and> (\<exists>old. scoreOf s c sid = Some old
                   \<and> scoreOf ?s1 c sid = Some (old + computedPoints v p g)
                   \<and> scoreOf (snd (snd (on_submit_answer sid v' ?s1))) c sid
                       = Some (old + computedPoints v p g + computedPoints v' p g))"
    proof (intro allI conjI)
      fix v'
      show "fst (on_submit_answer sid v' ?s1) = Success" using second [of v'] by blast
      show "computedPoints v' p g \<in> {- 5, 10, 15}" by (rule computedPoints_cases)
      show "\<exists>old. scoreOf s c sid = Some old
                   \<and> scoreOf ?s1 c sid = Some (old + computedPoints v p g)
                   \<and> scoreOf (snd (snd (on_submit_answer sid v' ?s1))) c sid
                       = Some (old + computedPoints v p g + computedPoints v' p g)"
        using old new second [of v'] by blast
    qed
    from obs rep show ?thesis unfolding s1 by blast
  qed
  from first again show ?thesis by blast
qed

theorem submit_by_buzzer_succeeds_witness:
  "playerToParty (after ex_buzzed) ''sockA'' = Some ''1000''
   \<and> map_option buzzedPlayerId (gameOf (after ex_buzzed) ''1000'') = Some (Some ''sockA'')
   \<and> truthy (JBool True)
   \<and> fst (on_submit_answer ''sockA'' (JBool True) (after ex_buzzed)) = Success
   \<and> fst (on_submit_answer ''sockA'' (JBool True)
          (snd (snd (on_submit_answer ''sockA'' (JBool True) (after ex_buzzed))))) = Success
   \<and> scoreOf (after ex_buzzed) ''1000'' ''sockA'' = Some 0
   \<and> scoreOf (snd (snd (on_submit_answer ''sockA'' (JBool True)
          (snd (snd (on_submit_answer ''sockA'' (JBool True) (after ex_buzzed)))))))
        ''1000'' ''sockA'' = Some 30"
proof -
  have w: "let s = after ex_buzzed in
      playerToParty s ''sockA'' = Some ''1000''
      \<and> map_option buzzedPlayerId (gameOf s ''1000'') = Some (Some ''sockA'')
      \<and> scoreOf s ''1000'' ''sockA'' = Some 0
      \<and> Option.bind (parties s ''1000'')
            (\<lambda>p. map_option (computedPoints (JBool True) p) (gameState p)) = Some 15"
    by code_simp
  then have a: "playerToParty (after ex_buzzed) ''sockA'' = Some ''1000''"
    and b: "map_option buzzedPlayerId (gameOf (after ex_buzzed) ''1000'') = Some (Some ''sockA'')"
    and old: "scoreOf (after ex_buzzed) ''1000'' ''sockA'' = Some 0"
    and pts: "Option.bind (parties (after ex_buzzed) ''1000'')
            (\<lambda>p. map_option (computedPoints (JBool True) p) (gameState p)) = Some 15"
    by (simp_all add: Let_def)
  from pts obtain p g where p: "parties (after ex_buzzed) ''1000'' = Some p"
    and g: "gameState p = Some g" and cp: "computedPoints (JBool True) p g = 15"
    by (auto simp: bind_eq_Some_conv)
  from b p g have bz: "buzzedPlayerId g = Some ''sockA''" by (simp add: gameOf_def)
  have t: "truthy (JBool True)" by simp
  from submit_by_buzzer_succeeds [OF reachable_after a p g bz, of "JBool True"] t old cp
  have "fst (on_submit_answer ''sockA'' (JBool True) (after ex_buzzed)) = Success
   \<and> fst (on_submit_answer ''sockA'' (JBool True)
          (snd (snd (on_submit_answer ''sockA'' (JBool True) (after ex_buzzed))))) = Success
   \<and> scoreOf (snd (snd (on_submit_answer ''sockA'' (JBool True)
          (snd (snd (on_submit_answer ''sockA'' (JBool True) (after ex_buzzed)))))))
        ''1000'' ''sockA'' = Some 30"
    by auto
  with a b t old show ?thesis by blast
qed

section \<open>The buzzer leaves\<close>

text \<open>
  Claim C9, as the code has it. When the current buzzer \<open>b\<close> (a socket id, hence not
  empty) leaves the party or disconnects and other players remain, the game state is
  left as it is: the buzzer is still \<open>b\<close>, who is no longer on the roster. In every
  state in which the buzzer of that party is \<open>b\<close>, a buzz of any member of the party is
  answered with AlreadyBuzzed and changes nothing. The buzzer of the party remains \<open>b\<close>,
  as long as the party exists, under every event other than a question advance (a
  \<open>next_question\<close> or a timer), a \<open>start_game\<close> and a \<open>submit_answer\<close> sent by \<open>b\<close>
  itself, which \<open>b\<close> can do after joining again; the question advance sets the buzzer
  to null.
\<close>

theorem buzzer_leaves:
  assumes "reachable ops s" and "playerToParty s b = Some c" and "parties s c = Some p"
    and "gameState p = Some g" and "buzzedPlayerId g = Some b" and "b \<noteq> []"
    and "filter (\<lambda>q. pid q \<noteq> b) (players p) \<noteq> []"
  shows "snd (on_disconnect b s) = snd (snd (on_leave_party b s))
    \<and> gameOf (snd (snd (on_leave_party b s))) c = Some g
    \<and> b \<notin> pid ` set (rosterOf (snd (snd (on_leave_party b s))) c)
    \<and> (\<forall>s' q v. buzzHeldBy s' c b \<longrightarrow> playerToParty s' q = Some c \<longrightarrow>
          on_buzz q v s' = (Failure AlreadyBuzzed, [], s'))
    \<and> (\<forall>s' e r out s''. buzzHeldBy s' c b \<longrightarrow> \<not> releases b e \<longrightarrow>
          step ops e s' = Inr (r, out, s'') \<longrightarrow>
          buzzHeldBy s'' c b \<or> parties s'' c = None)
    \<and> (\<forall>s' out s''. buzzHeldBy s' c b \<longrightarrow> advanceToNextQuestion c s' = Inr (out, s'') \<longrightarrow>
          map_option buzzedPlayerId (gameOf s'' c) = Some None)"
proof -
  from assms have c: "c \<noteq> []" by (auto dest: reachable_code_nonempty)
  let ?p1 = "assignNewHost b (p\<lparr>players := filter (\<lambda>q. pid q \<noteq> b) (players p)\<rparr>)"
  let ?s1 = "s\<lparr>parties := (parties s)(c \<mapsto> ?p1),
           playerToParty := (playerToParty s)(b := None)\<rparr>"
  note l = leave_keeps_game [OF assms(2) c assms(3) assms(7)]
  have g1: "gameState ?p1 = Some g" using assms(4) by simp
  have 1: "snd (on_disconnect b s) = snd (snd (on_leave_party b s))" by (rule l(2))
  have 2: "gameOf ?s1 c = Some g" using g1 by (simp add: gameOf_def)
  have "map pid (players ?p1) = map pid (filter (\<lambda>q. pid q \<noteq> b) (players p))" by simp
  then have "pid ` set (players ?p1) = pid ` set (filter (\<lambda>q. pid q \<noteq> b) (players p))"
    by (metis set_map)
  then have 3: "b \<notin> pid ` set (rosterOf ?s1 c)" by (auto simp: rosterOf_def)
  have 4: "\<forall>s' q v. buzzHeldBy s' c b \<longrightarrow> playerToParty s' q = Some c \<longrightarrow>
          on_buzz q v s' = (Failure AlreadyBuzzed, [], s')"
  proof (intro allI impI)
    fix s' q v
    assume h: "buzzHeldBy s' c b" and i: "playerToParty s' q = Some c"
    show "on_buzz q v s' = (Failure AlreadyBuzzed, [], s')"
      by (rule buzz_when_held [OF h assms(6) c i])
  qed
  have 5: "\<forall>s' e r out s''. buzzHeldBy s' c b \<longrightarrow> \<not> releases b e \<longrightarrow>
          step ops e s' = Inr (r, out, s'') \<longrightarrow>
          buzzHeldBy s'' c b \<or> parties s'' c = None"
  proof (intro allI impI)
    fix s' e r out s''
    assume h: "buzzHeldBy s' c b" and n: "\<not> releases b e"
      and st: "step ops e s' = Inr (r, out, s'')"
    show "buzzHeldBy s'' c b \<or> parties s'' c = None"
      by (rule frame_step [OF h assms(6) n st])
  qed
  have 6: "\<forall>s' out s''. buzzHeldBy s' c b \<longrightarrow> advanceToNextQuestion c s' = Inr (out, s'') \<longrightarrow>
          map_option buzzedPlayerId (gameOf s'' c) = Some None"
  proof (intro allI impI)
    fix s' out s''
    assume h: "buzzHeldBy s' c b" and a: "advanceToNextQuestion c s' = Inr (out, s'')"
    show "map_option buzzedPlayerId (gameOf s'' c) = Some None"
      by (rule advance_when_held [OF h a])
  qed
  from 1 2 3 4 5 6 show ?thesis unfolding l(1) by (intro conjI)
qed

theorem buzzer_leaves_witness:
  "playerToParty (after ex_host_buzzed) ''sockA'' = Some ''1000''
   \<and> map_option buzzedPlayerId (gameOf (after ex_host_buzzed) ''1000'') = Some (Some ''sockA'')
   \<and> ''sockA'' \<noteq> []
   \<and> map pid (rosterOf (after ex_host_buzzed) ''1000'') = [''sockA'', ''sockB'']
   \<and> buzzHeldBy (snd (snd (on_leave_party ''sockA'' (after ex_host_buzzed)))) ''1000'' ''sockA''
   \<and> playerToParty (snd (snd (on_leave_party ''sockA'' (after ex_host_buzzed)))) ''sockB''
       = Some ''1000''
   \<and> on_buzz ''sockB'' (JNum 20) (snd (snd (on_leave_party ''sockA'' (after ex_host_buzzed))))
       = (Failure AlreadyBuzzed, [], snd (snd (on_leave_party ''sockA'' (after ex_host_buzzed))))"
proof -
  have w: "let s = after ex_host_buzzed in
      playerToParty s ''sockA'' = Some ''1000''
      \<and> map_option buzzedPlayerId (gameOf s ''1000'') = Some (Some ''sockA'')
      \<and> map pid (rosterOf s ''1000'') = [''sockA'', ''sockB'']
      \<and> playerToParty (snd (snd (on_leave_party ''sockA'' s))) ''sockB'' = Some ''1000''"
    by code_simp
  then have a: "playerToParty (after ex_host_buzzed) ''sockA'' = Some ''1000''"
    and b: "map_option buzzedPlayerId (gameOf (after ex_host_buzzed) ''1000'')
              = Some (Some ''sockA'')"
    and r: "map pid (rosterOf (after ex_host_buzzed) ''1000'') = [''sockA'', ''sockB'']"
    and i: "playerToParty (snd (snd (on_leave_party ''sockA'' (after ex_host_buzzed)))) ''sockB''
              = Some ''1000''"
    by (simp_all add: Let_def)
  from b obtain p g where p: "parties (after ex_host_buzzed) ''1000'' = Some p"
    and g: "gameState p = Some g" "buzzedPlayerId g = Some ''sockA''"
    by (auto simp: gameOf_def bind_eq_Some_conv)
  from r p have "map pid (players p) = [''sockA'', ''sockB'']" by (simp add: rosterOf_def)
  then have "map pid (filter (\<lambda>q. pid q \<noteq> ''sockA'') (players p)) = [''sockB'']"
    by (auto simp: filter_map comp_def Cons_eq_map_conv)
  then have rest: "filter (\<lambda>q. pid q \<noteq> ''sockA'') (players p) \<noteq> []" by auto
  have ne: "''sockA'' \<noteq> []" by simp
  note t = buzzer_leaves [OF reachable_after a p g ne rest]
  from t g(2)
  have held: "buzzHeldBy (snd (snd (on_leave_party ''sockA'' (after ex_host_buzzed))))
      ''1000'' ''sockA''"
    by (simp add: buzzHeldBy_def)
  from t have "\<forall>s' q v. buzzHeldBy s' ''1000'' ''sockA'' \<longrightarrow>
      playerToParty s' q = Some ''1000'' \<longrightarrow> on_buzz q v s' = (Failure AlreadyBuzzed, [], s')"
    by blast
  with held i
  have "on_buzz ''sockB'' (JNum 20) (snd (snd (on_leave_party ''sockA'' (after ex_host_buzzed))))
       = (Failure AlreadyBuzzed, [], snd (snd (on_leave_party ''sockA'' (after ex_host_buzzed))))"
    by blast
  with a b ne r i held show ?thesis by blast
qed

text \<open>
  Claim C9 as written fails where it says that every later buzz fails until the next
  question advance. In the run \<open>ex_buzzer_rejoined\<close> the buzzer sockA leaves while holding
  the buzz, joins again and answers wrongly: the question index is still 0, no timer has
  been armed, and the buzz of the remaining player sockB succeeds.
\<close>

theorem buzz_after_rejoin_counterexample:
  "buzzHeldBy (after ex_buzzer_left) ''1000'' ''sockA''
   \<and> map pid (rosterOf (after ex_buzzer_left) ''1000'') = [''sockB'']
   \<and> map_option currentQuestionIndex (parties (after ex_buzzer_left) ''1000'') = Some 0
   \<and> map_option currentQuestionIndex (parties (after ex_buzzer_rejoined) ''1000'') = Some 0
   \<and> timers (after ex_buzzer_rejoined) = []
   \<and> playerToParty (after ex_buzzer_rejoined) ''sockB'' = Some ''1000''
   \<and> fst (on_buzz ''sockB'' (JNum 20) (after ex_buzzer_rejoined)) = Success"
proof -
  have "let s = after ex_buzzer_left in
      buzzHeldBy s ''1000'' ''sockA''
      \<and> map pid (rosterOf s ''1000'') = [''sockB'']
      \<and> map_option currentQuestionIndex (parties s ''1000'') = Some 0"
    by code_simp
  moreover have "let s = after ex_buzzer_rejoined in
      map_option currentQuestionIndex (parties s ''1000'') = Some 0
      \<and> timers s = []
      \<and> playerToParty s ''sockB'' = Some ''1000''
      \<and> fst (on_buzz ''sockB'' (JNum 20) s) = Success"
    by code_simp
  ultimately show ?thesis by (simp add: Let_def)
qed

section \<open>The current buzzer, the attempted set and the buzz lock\<close>

text \<open>
  Claim C1, as the code has it. In every reachable state the current buzzer of a game is
  not in the attempted set of that game. That every game with a current buzzer has its
  buzz lock off holds when the process starts and is kept by every event but one:
  when the current buzzer sends \<open>submit_answer\<close> with a correct answer, the buzz lock is
  set and the buzzer is left in place.
\<close>

theorem buzzer_not_attempted:
  assumes "reachable ops s" and "parties s c = Some p" and "gameState p = Some g"
    and "buzzedPlayerId g = Some x"
  shows "x \<notin> set (attempted g)
    \<and> unlocked_ok (parties init_server)
    \<and> (\<forall>e r out s'.
          (\<forall>sid v. e = SubmitAnswer sid v \<longrightarrow> \<not> truthy v) \<longrightarrow>
          step ops e s = Inr (r, out, s') \<longrightarrow>
          unlocked_ok (parties s) \<longrightarrow> unlocked_ok (parties s'))
    \<and> (\<forall>v. truthy v \<longrightarrow> playerToParty s x = Some c \<longrightarrow>
          map_option buzzedPlayerId (gameOf (snd (snd (on_submit_answer x v s))) c)
            = Some (Some x)
          \<and> map_option buzzLocked (gameOf (snd (snd (on_submit_answer x v s))) c)
            = Some True)"
proof -
  from assms(1) have "all_ok (parties s)" by (auto dest: reachable_ok simp: server_ok_def)
  from all_ok_fresh [OF this assms(2-4)] have 1: "x \<notin> set (attempted g)" .
  have 2: "unlocked_ok (parties init_server)"
    by (simp add: unlocked_ok_def init_server_def)
  have 3: "\<forall>e r out s'.
          (\<forall>sid v. e = SubmitAnswer sid v \<longrightarrow> \<not> truthy v) \<longrightarrow>
          step ops e s = Inr (r, out, s') \<longrightarrow>
          unlocked_ok (parties s) \<longrightarrow> unlocked_ok (parties s')"
    by (blast intro: unlocked_step)
  have 4: "\<forall>v. truthy v \<longrightarrow> playerToParty s x = Some c \<longrightarrow>
          map_option buzzedPlayerId (gameOf (snd (snd (on_submit_answer x v s))) c)
            = Some (Some x)
          \<and> map_option buzzLocked (gameOf (snd (snd (on_submit_answer x v s))) c)
            = Some True"
  proof (intro allI impI)
    fix v assume t: "truthy v" and i: "playerToParty s x = Some c"
    from assms(1) i have c: "c \<noteq> []" by (rule reachable_code_nonempty)
    from reachable_on_roster [OF assms(1) i assms(2)]
    obtain pl where pl: "find (\<lambda>q. pid q = x) (players p) = Some pl" by blast
    from submit_correct_result [OF i c assms(2-4) pl t] assms(4)
    show "map_option buzzedPlayerId (gameOf (snd (snd (on_submit_answer x v s))) c)
            = Some (Some x)
          \<and> map_option buzzLocked (gameOf (snd (snd (on_submit_answer x v s))) c)
            = Some True"
      by (simp add: gameOf_def)
  qed
  from 1 2 3 4 show ?thesis by blast
qed

theorem buzzer_not_attempted_witness:
  "map_option buzzedPlayerId (gameOf (after ex_last_attempt) ''1000'') = Some (Some ''sockB'')
   \<and> map_option attempted (gameOf (after ex_last_attempt) ''1000'') = Some [''sockA'']
   \<and> ''sockB'' \<notin> set [''sockA'']"
proof -
  have w: "let s = after ex_last_attempt in
      map_option buzzedPlayerId (gameOf s ''1000'') = Some (Some ''sockB'')
      \<and> map_option attempted (gameOf s ''1000'') = Some [''sockA'']"
    by code_simp
  then have b: "map_option buzzedPlayerId (gameOf (after ex_last_attempt) ''1000'')
                  = Some (Some ''sockB'')"
    and a: "map_option attempted (gameOf (after ex_last_attempt) ''1000'') = Some [''sockA'']"
    by (simp_all add: Let_def)
  from b obtain p g where p: "parties (after ex_last_attempt) ''1000'' = Some p"
    and g: "gameState p = Some g" "buzzedPlayerId g = Some ''sockB''"
    by (auto simp: gameOf_def bind_eq_Some_conv)
  from a p g have "attempted g = [''sockA'']" by (simp add: gameOf_def)
  with buzzer_not_attempted [OF reachable_after p g] have "''sockB'' \<notin> set [''sockA'']"
    by simp
  with a b show ?thesis by simp
qed

text \<open>
  Claim C1 as written fails: after a correct answer the game has a current buzzer and
  the buzz lock is on.
\<close>

theorem buzzer_locked_counterexample:
  "map_option buzzedPlayerId (gameOf (after ex_answered) ''1000'') = Some (Some ''sockA'')
   \<and> map_option buzzLocked (gameOf (after ex_answered) ''1000'') = Some True"
  by code_simp

section \<open>Leaving a party\<close>




end
